theory Spec2Isabelle
  imports Main "HOL-Library.Char_ord" "HOL-Library.List_Lexorder"
begin

section \<open>The IR of a constructor\<close>

text \<open>
  Registers, classes and basic blocks are Python objects that the analysis compares by
  identity (\<^verbatim>\<open>op.obj is self_reg\<close>, \<^verbatim>\<open>cl in seen\<close>, dictionary keys
  \<^verbatim>\<open>(block, i)\<close>).  An object is modelled by a natural number naming it; a basic
  block is named by its label.
\<close>

type_synonym Register = nat
type_synonym ClassId = nat
type_synonym Label = nat

text \<open>
  The op kinds that \<^verbatim>\<open>attrdefined.py\<close> tells apart.  \<open>Goto\<close>, \<open>Branch\<close>,
  \<open>Return\<close> and \<open>Unreachable\<close> are the control ops; \<open>GetAttr\<close>, \<open>SetAttr\<close>,
  \<open>Call\<close> and \<open>OtherRegisterOp\<close> (any other register op, for instance a method
  call) are the register ops; \<open>Assign\<close>, \<open>AssignMulti\<close> and \<open>SetMem\<close> are the
  remaining ops a visitor is asked about.

  \<open>GetAttr obj attr\<close> and \<open>SetAttr obj attr is_init\<close> carry the object operand and the
  attribute name; \<open>is_init\<close> is the flag that \<^verbatim>\<open>mark_as_initializer\<close> sets.
  \<open>Call class_name name self_class\<close> carries \<^verbatim>\<open>op.fn.class_name\<close>,
  \<^verbatim>\<open>op.fn.name\<close> and the class of \<^verbatim>\<open>op.fn.sig.args[0].type\<close>, which
  the source asserts to be an instance type whenever it reads it.
\<close>

datatype Op =
    Goto Label
  | Branch Label Label
  | Return
  | Unreachable
  | Assign
  | AssignMulti
  | SetMem
  | GetAttr Register string
  | SetAttr Register string bool
  | Call "string option" string ClassId
  | OtherRegisterOp

record BasicBlock =
  label :: Label
  ops :: "Op list"

fun is_ControlOp :: "Op \<Rightarrow> bool" where
  "is_ControlOp (Goto l) = True"
| "is_ControlOp (Branch t f) = True"
| "is_ControlOp Return = True"
| "is_ControlOp Unreachable = True"
| "is_ControlOp other = False"

fun targets :: "Op \<Rightarrow> Label list" where
  "targets (Goto l) = [l]"
| "targets (Branch t f) = [t, f]"
| "targets other = []"

text \<open>
  \<^verbatim>\<open>AnalysisResult\<close>: the sets before and after every op, keyed by block and op
  index.  The source reads the dictionaries only at keys of the analysed blocks (the
  results are "expected to be up-to-date for the blocks"), so they are total functions
  here.  The self-leak result is an \<^verbatim>\<open>AnalysisResult[None]\<close>: a set that is empty or
  \<open>{None}\<close>, read through Python's truthiness of sets.
\<close>

record 'a AnalysisResult =
  before :: "Label \<times> nat \<Rightarrow> 'a set"
  after :: "Label \<times> nat \<Rightarrow> 'a set"

definition truthy :: "'a set \<Rightarrow> bool" where
  "truthy s \<longleftrightarrow> s \<noteq> {}"

section \<open>The functions of the single-class resolver\<close>

text \<open>
  \<^verbatim>\<open>find_always_defined_attributes\<close>.  The inner loop runs over the ops of one
  block with their indices and stops at the first op after which self may have leaked
  (the \<^verbatim>\<open>break\<close>).
\<close>

fun find_always_defined_attributes_ops ::
  "Register \<Rightarrow> string AnalysisResult \<Rightarrow> string AnalysisResult \<Rightarrow> unit AnalysisResult \<Rightarrow>
   Label \<Rightarrow> nat \<Rightarrow> Op list \<Rightarrow> string set \<Rightarrow> string set" where
  "find_always_defined_attributes_ops self_reg maybe_defined maybe_undefined dirty b i [] attrs = attrs"
| "find_always_defined_attributes_ops self_reg maybe_defined maybe_undefined dirty b i (op # rest) attrs =
    (let attrs1 =
           (case op of
              GetAttr obj attr \<Rightarrow>
                if obj = self_reg \<and> attr \<in> before maybe_undefined (b, i)
                then attrs - {attr} else attrs
            | _ \<Rightarrow> attrs);
         attrs2 =
           (case op of
              SetAttr obj attr ini \<Rightarrow>
                if obj = self_reg \<and> attr \<in> before maybe_undefined (b, i)
                   \<and> attr \<in> before maybe_defined (b, i)
                then attrs1 - {attr} else attrs1
            | _ \<Rightarrow> attrs1)
     in if truthy (after dirty (b, i)) then
          (if \<not> truthy (before dirty (b, i))
           then attrs2 \<inter> (after maybe_defined (b, i) - after maybe_undefined (b, i))
           else attrs2)
        else
          find_always_defined_attributes_ops self_reg maybe_defined maybe_undefined dirty b (Suc i) rest
            (if is_ControlOp op then
               fold (\<lambda>target a.
                       if \<not> truthy (after dirty (b, i)) \<and> truthy (before dirty (target, 0))
                       then a \<inter> (after maybe_defined (target, 0) - after maybe_undefined (target, 0))
                       else a)
                    (targets op) attrs2
             else attrs2))"

definition find_always_defined_attributes ::
  "BasicBlock list \<Rightarrow> Register \<Rightarrow> string set \<Rightarrow> string AnalysisResult \<Rightarrow>
   string AnalysisResult \<Rightarrow> unit AnalysisResult \<Rightarrow> string set" where
  "find_always_defined_attributes blocks self_reg all_attrs maybe_defined maybe_undefined dirty =
     fold (\<lambda>block attrs.
             find_always_defined_attributes_ops self_reg maybe_defined maybe_undefined dirty
               (label block) 0 (ops block) attrs)
          blocks all_attrs"

text \<open>\<^verbatim>\<open>find_sometimes_defined_attributes\<close>: the same walk, collecting instead.\<close>

fun find_sometimes_defined_attributes_ops ::
  "string AnalysisResult \<Rightarrow> unit AnalysisResult \<Rightarrow> Label \<Rightarrow> nat \<Rightarrow> Op list \<Rightarrow>
   string set \<Rightarrow> string set" where
  "find_sometimes_defined_attributes_ops maybe_defined dirty b i [] attrs = attrs"
| "find_sometimes_defined_attributes_ops maybe_defined dirty b i (op # rest) attrs =
    (if truthy (after dirty (b, i)) then
       (if \<not> truthy (before dirty (b, i))
        then attrs \<union> after maybe_defined (b, i)
        else attrs)
     else
       find_sometimes_defined_attributes_ops maybe_defined dirty b (Suc i) rest
         (if is_ControlOp op then
            fold (\<lambda>target a.
                    if \<not> truthy (after dirty (b, i)) \<and> truthy (before dirty (target, 0))
                    then a \<union> after maybe_defined (target, 0)
                    else a)
                 (targets op) attrs
          else attrs))"

definition find_sometimes_defined_attributes ::
  "BasicBlock list \<Rightarrow> Register \<Rightarrow> string AnalysisResult \<Rightarrow> unit AnalysisResult \<Rightarrow>
   string set" where
  "find_sometimes_defined_attributes blocks self_reg maybe_defined dirty =
     fold (\<lambda>block attrs.
             find_sometimes_defined_attributes_ops maybe_defined dirty (label block) 0 (ops block) attrs)
          blocks {}"

text \<open>
  \<^verbatim>\<open>mark_attr_initialization_ops\<close> mutates the \<open>SetAttr\<close> ops in place; the model
  returns the blocks with the flags set.
\<close>

fun mark_attr_initialization_ops_ops ::
  "Register \<Rightarrow> string AnalysisResult \<Rightarrow> unit AnalysisResult \<Rightarrow> Label \<Rightarrow> nat \<Rightarrow> Op list \<Rightarrow>
   Op list" where
  "mark_attr_initialization_ops_ops self_reg maybe_defined dirty b i [] = []"
| "mark_attr_initialization_ops_ops self_reg maybe_defined dirty b i (op # rest) =
    (case op of
       SetAttr obj attr ini \<Rightarrow>
         if obj = self_reg \<and> attr \<notin> before maybe_defined (b, i) \<and> \<not> truthy (after dirty (b, i))
         then SetAttr obj attr True
         else op
     | _ \<Rightarrow> op)
    # mark_attr_initialization_ops_ops self_reg maybe_defined dirty b (Suc i) rest"

definition mark_attr_initialization_ops ::
  "BasicBlock list \<Rightarrow> Register \<Rightarrow> string AnalysisResult \<Rightarrow> unit AnalysisResult \<Rightarrow>
   BasicBlock list" where
  "mark_attr_initialization_ops blocks self_reg maybe_defined dirty =
     map (\<lambda>block. block\<lparr>ops :=
            mark_attr_initialization_ops_ops self_reg maybe_defined dirty (label block) 0 (ops block)\<rparr>)
         blocks"

text \<open>
  The loop at the end of \<^verbatim>\<open>analyze_always_defined_attrs_in_class\<close> that computes
  \<^verbatim>\<open>any_dirty\<close>.  Its \<^verbatim>\<open>break\<close> leaves the inner loop only, after the flag
  has been set.
\<close>

fun any_dirty_ops :: "unit AnalysisResult \<Rightarrow> Label \<Rightarrow> nat \<Rightarrow> Op list \<Rightarrow> bool \<Rightarrow> bool" where
  "any_dirty_ops dirty b i [] any_dirty = any_dirty"
| "any_dirty_ops dirty b i (op # rest) any_dirty =
    (if truthy (after dirty (b, i)) \<and> op \<noteq> Return then True
     else any_dirty_ops dirty b (Suc i) rest any_dirty)"

definition any_dirty_blocks :: "BasicBlock list \<Rightarrow> unit AnalysisResult \<Rightarrow> bool" where
  "any_dirty_blocks blocks dirty =
     fold (\<lambda>b any_dirty. any_dirty_ops dirty (label b) 0 (ops b) any_dirty) blocks False"

section \<open>Class descriptors\<close>

datatype RType = RType (error_overlap: bool)

record FuncIR =
  arg_regs :: "Register list"
  blocks :: "BasicBlock list"

text \<open>
  \<^verbatim>\<open>ClassIR\<close>, with the fields and query results the analysis reads.
  \<open>children = None\<close> is Python's \<^verbatim>\<open>cl.children is None\<close> (subclasses unknown);
  \<open>attributes\<close> is a dictionary in insertion order.  \<open>is_serializable\<close> holds
  what the call \<^verbatim>\<open>cl.is_serializable()\<close> returns.  \<open>init_method\<close> is the
  \<^verbatim>\<open>__init__\<close> method the class defines itself, if it defines one.  The last four
  fields are the results the analysis writes.
\<close>

record ClassIR =
  is_trait :: bool
  inherits_python :: bool
  allow_interpreted_subclasses :: bool
  builtin_base :: "string option"
  children :: "ClassId list option"
  is_serializable :: bool
  mro :: "ClassId list"
  base_mro :: "ClassId list"
  attributes :: "(string \<times> RType) list"
  attrs_with_defaults :: "string set"
  deletable_attrs :: "string set"
  init_method :: "FuncIR option"
  always_initialized_attrs :: "string set"
  sometimes_initialized_attrs :: "string set"
  init_self_leak :: bool
  bitmap_attrs :: "string list"

text \<open>The heap of class descriptors: every class identity names one descriptor.\<close>

type_synonym Classes = "ClassId \<Rightarrow> ClassIR"

text \<open>
  Modelled from the spec: \<^verbatim>\<open>ClassIR.get_method_and_class\<close> and
  \<^verbatim>\<open>ClassIR.get_method\<close> are declared in \<^verbatim>\<open>mypyc/ir/class_ir.py\<close>, which
  is not among the sources.  The spec: the MRO is "the linearized ancestor sequence used
  for attribute/method lookup", "self first".  The lookup of \<^verbatim>\<open>__init__\<close> goes
  through \<^verbatim>\<open>cl.mro\<close> and returns the method of the first class that defines one,
  together with that class; \<^verbatim>\<open>get_method\<close> returns the method only.
\<close>

fun first_init :: "Classes \<Rightarrow> ClassId list \<Rightarrow> (FuncIR \<times> ClassId) option" where
  "first_init classes [] = None"
| "first_init classes (base # rest) =
     (case init_method (classes base) of
        Some m \<Rightarrow> Some (m, base)
      | None \<Rightarrow> first_init classes rest)"

definition get_method_and_class_init :: "Classes \<Rightarrow> ClassId \<Rightarrow> (FuncIR \<times> ClassId) option" where
  "get_method_and_class_init classes cl = first_init classes (mro (classes cl))"

definition get_method_init :: "Classes \<Rightarrow> ClassId \<Rightarrow> FuncIR option" where
  "get_method_init classes cl = map_option fst (get_method_and_class_init classes cl)"

text \<open>
  Modelled from the spec: \<^verbatim>\<open>ClassIR.is_deletable\<close> is declared in
  \<^verbatim>\<open>mypyc/ir/class_ir.py\<close>, which is not among the sources.  The spec: "remove
  every attribute in \<open>deletable_attrs\<close>".
\<close>

definition is_deletable :: "ClassIR \<Rightarrow> string \<Rightarrow> bool" where
  "is_deletable cl a \<longleftrightarrow> a \<in> deletable_attrs cl"

text \<open>
  Modelled from the spec: \<^verbatim>\<open>ClassIR.is_always_defined\<close> is declared in
  \<^verbatim>\<open>mypyc/ir/class_ir.py\<close>, which is not among the sources.  The spec: an attribute
  the class guarantees always defined "via its own already-computed
  \<open>always_initialized_attrs\<close>".
\<close>

definition is_always_defined :: "ClassIR \<Rightarrow> string \<Rightarrow> bool" where
  "is_always_defined cl a \<longleftrightarrow> a \<in> always_initialized_attrs cl"

section \<open>The gen/kill visitors\<close>

type_synonym GenAndKill = "string set \<times> string set"

text \<open>
  \<^verbatim>\<open>attributes_initialized_by_init_call\<close> and
  \<^verbatim>\<open>attributes_maybe_initialized_by_init_call\<close>, applied to the class of the
  call's first argument type.
\<close>

definition attributes_initialized_by_init_call :: "Classes \<Rightarrow> ClassId \<Rightarrow> string set" where
  "attributes_initialized_by_init_call classes cl =
     set [a. base \<leftarrow> mro (classes cl), a \<leftarrow> map fst (attributes (classes base)),
             is_always_defined (classes base) a]"

definition attributes_maybe_initialized_by_init_call :: "Classes \<Rightarrow> ClassId \<Rightarrow> string set" where
  "attributes_maybe_initialized_by_init_call classes cl =
     attributes_initialized_by_init_call classes cl \<union> sometimes_initialized_attrs (classes cl)"

text \<open>Python's truthiness of \<^verbatim>\<open>op.fn.class_name\<close>, a string or \<^verbatim>\<open>None\<close>.\<close>

fun truthy_name :: "string option \<Rightarrow> bool" where
  "truthy_name None = False"
| "truthy_name (Some s) = (s \<noteq> [])"

text \<open>\<^verbatim>\<open>AttributeMaybeDefinedVisitor.visit_register_op\<close>.\<close>

fun maybe_defined_visit_register_op :: "Classes \<Rightarrow> Register \<Rightarrow> Op \<Rightarrow> GenAndKill" where
  "maybe_defined_visit_register_op classes self_reg (SetAttr obj attr ini) =
     (if obj = self_reg then ({attr}, {}) else ({}, {}))"
| "maybe_defined_visit_register_op classes self_reg (Call class_name name self_class) =
     (if truthy_name class_name \<and> name = ''__init__''
      then (attributes_maybe_initialized_by_init_call classes self_class, {})
      else ({}, {}))"
| "maybe_defined_visit_register_op classes self_reg other = ({}, {})"

text \<open>
  \<^verbatim>\<open>op.accept(AttributeMaybeDefinedVisitor(self_reg))\<close>: the register ops go to
  \<^verbatim>\<open>visit_register_op\<close>, every other op to a method that returns two empty sets.
\<close>

fun maybe_defined_visit :: "Classes \<Rightarrow> Register \<Rightarrow> Op \<Rightarrow> GenAndKill" where
  "maybe_defined_visit classes self_reg (Goto l) = ({}, {})"
| "maybe_defined_visit classes self_reg (Branch t f) = ({}, {})"
| "maybe_defined_visit classes self_reg Return = ({}, {})"
| "maybe_defined_visit classes self_reg Unreachable = ({}, {})"
| "maybe_defined_visit classes self_reg Assign = ({}, {})"
| "maybe_defined_visit classes self_reg AssignMulti = ({}, {})"
| "maybe_defined_visit classes self_reg SetMem = ({}, {})"
| "maybe_defined_visit classes self_reg op = maybe_defined_visit_register_op classes self_reg op"

text \<open>\<^verbatim>\<open>AttributeMaybeUndefinedVisitor.visit_register_op\<close>.\<close>

fun maybe_undefined_visit_register_op :: "Classes \<Rightarrow> Register \<Rightarrow> Op \<Rightarrow> GenAndKill" where
  "maybe_undefined_visit_register_op classes self_reg (SetAttr obj attr ini) =
     (if obj = self_reg then ({}, {attr}) else ({}, {}))"
| "maybe_undefined_visit_register_op classes self_reg (Call class_name name self_class) =
     (if truthy_name class_name \<and> name = ''__init__''
      then ({}, attributes_initialized_by_init_call classes self_class)
      else ({}, {}))"
| "maybe_undefined_visit_register_op classes self_reg other = ({}, {})"

fun maybe_undefined_visit :: "Classes \<Rightarrow> Register \<Rightarrow> Op \<Rightarrow> GenAndKill" where
  "maybe_undefined_visit classes self_reg (Goto l) = ({}, {})"
| "maybe_undefined_visit classes self_reg (Branch t f) = ({}, {})"
| "maybe_undefined_visit classes self_reg Return = ({}, {})"
| "maybe_undefined_visit classes self_reg Unreachable = ({}, {})"
| "maybe_undefined_visit classes self_reg Assign = ({}, {})"
| "maybe_undefined_visit classes self_reg AssignMulti = ({}, {})"
| "maybe_undefined_visit classes self_reg SetMem = ({}, {})"
| "maybe_undefined_visit classes self_reg op = maybe_undefined_visit_register_op classes self_reg op"

section \<open>The services the pass consumes\<close>

text \<open>
  The dataflow engine \<^verbatim>\<open>run_analysis\<close> (forward, maybe-analysis, over the control-flow
  graph of the blocks) and the self-leak analysis \<^verbatim>\<open>analyze_self_leaks\<close> live in
  modules that are not among the sources; the pass is parametrised by them.  The
  self-leak analysis follows references to other classes, so it is given the heap.
\<close>

record Services =
  run_analysis :: "BasicBlock list \<Rightarrow> (Op \<Rightarrow> GenAndKill) \<Rightarrow> string set \<Rightarrow> string AnalysisResult"
  analyze_self_leaks :: "Classes \<Rightarrow> BasicBlock list \<Rightarrow> Register \<Rightarrow> unit AnalysisResult"

definition analyze_maybe_defined_attrs_in_init ::
  "Services \<Rightarrow> Classes \<Rightarrow> BasicBlock list \<Rightarrow> Register \<Rightarrow> string set \<Rightarrow> string AnalysisResult" where
  "analyze_maybe_defined_attrs_in_init S classes blks self_reg defaults =
     run_analysis S blks (maybe_defined_visit classes self_reg) defaults"

definition analyze_maybe_undefined_attrs_in_init ::
  "Services \<Rightarrow> Classes \<Rightarrow> BasicBlock list \<Rightarrow> Register \<Rightarrow> string set \<Rightarrow> string AnalysisResult" where
  "analyze_maybe_undefined_attrs_in_init S classes blks self_reg initial_undefined =
     run_analysis S blks (maybe_undefined_visit classes self_reg) initial_undefined"

section \<open>The three passes over the class descriptors\<close>

text \<open>
  The passes recurse over the class hierarchy and mutate the descriptors and the
  \<^verbatim>\<open>seen\<close> set.  The model threads the heap and \<^verbatim>\<open>seen\<close> through every call
  and bounds the depth of the recursion, as the interpreter does: a call that would
  exceed the bound ends in \<open>RecursionError\<close>.  \<open>IndexError\<close> is raised by
  \<^verbatim>\<open>m.arg_regs[0]\<close> on an empty list, \<open>TypeError\<close> by a loop over
  \<^verbatim>\<open>cl.children\<close> when that is \<^verbatim>\<open>None\<close>.
\<close>

datatype failure = RecursionError | IndexError | TypeError

type_synonym PassState = "Classes \<times> ClassId set"

text \<open>
  The condition under which \<^verbatim>\<open>analyze_always_defined_attrs_in_class\<close> gives up.
\<close>

definition gives_up :: "ClassIR \<Rightarrow> bool" where
  "gives_up cl \<longleftrightarrow>
     is_trait cl \<or> inherits_python cl \<or> allow_interpreted_subclasses cl
     \<or> builtin_base cl \<noteq> None \<or> children cl = None \<or> is_serializable cl"

text \<open>
  The part of \<^verbatim>\<open>analyze_always_defined_attrs_in_class\<close> after the base classes
  have been analysed: it writes the results of the class \<open>cl\<close>.  The constructor
  \<^verbatim>\<open>m\<close> is an object of the class \<open>owner\<close> that defines it, which is \<open>cl\<close> or one
  of its base classes; \<^verbatim>\<open>mark_attr_initialization_ops\<close> changes the ops of that
  object, so the tagged blocks are stored in the descriptor of \<open>owner\<close>.
\<close>

definition analyze_own_init :: "Services \<Rightarrow> ClassId \<Rightarrow> Classes \<Rightarrow> failure + Classes" where
  "analyze_own_init S cl classes =
    (case get_method_and_class_init classes cl of
       None \<Rightarrow>
         Inr (classes(cl := (classes cl)\<lparr>
                always_initialized_attrs := attrs_with_defaults (classes cl),
                sometimes_initialized_attrs := attrs_with_defaults (classes cl)\<rparr>))
     | Some (m, owner) \<Rightarrow>
        (case arg_regs m of
           [] \<Rightarrow> Inl IndexError
         | self_reg # other_regs \<Rightarrow>
            (let dirty = analyze_self_leaks S classes (blocks m) self_reg;
                 maybe_defined =
                   analyze_maybe_defined_attrs_in_init S classes (blocks m) self_reg
                     (attrs_with_defaults (classes cl));
                 all_attrs = (\<Union>base \<in> set (mro (classes cl)). fst ` set (attributes (classes base)));
                 maybe_undefined =
                   analyze_maybe_undefined_attrs_in_init S classes (blocks m) self_reg
                     (all_attrs - attrs_with_defaults (classes cl));
                 always_defined =
                   find_always_defined_attributes (blocks m) self_reg all_attrs
                     maybe_defined maybe_undefined dirty;
                 always_defined' = {a \<in> always_defined. \<not> is_deletable (classes cl) a};
                 sometimes_defined =
                   find_sometimes_defined_attributes (blocks m) self_reg maybe_defined dirty;
                 classes1 = classes(cl := (classes cl)\<lparr>
                       always_initialized_attrs := always_defined',
                       sometimes_initialized_attrs := sometimes_defined\<rparr>);
                 blocks' = mark_attr_initialization_ops (blocks m) self_reg maybe_defined dirty;
                 classes2 = classes1(owner := (classes1 owner)\<lparr>
                       init_method := Some (m\<lparr>blocks := blocks'\<rparr>)\<rparr>);
                 any_dirty = any_dirty_blocks blocks' dirty
             in Inr (classes2(cl := (classes2 cl)\<lparr>init_self_leak := any_dirty\<rparr>)))))"

text \<open>
  \<^verbatim>\<open>analyze_always_defined_attrs_in_class\<close>, with the loop over
  \<^verbatim>\<open>cl.mro[1:]\<close> as a second function.
\<close>

fun analyze_always_defined_attrs_in_class ::
    "Services \<Rightarrow> nat \<Rightarrow> ClassId \<Rightarrow> PassState \<Rightarrow> failure + PassState"
  and analyze_bases ::
    "Services \<Rightarrow> nat \<Rightarrow> ClassId list \<Rightarrow> PassState \<Rightarrow> failure + PassState" where
  "analyze_always_defined_attrs_in_class S 0 cl st = Inl RecursionError"
| "analyze_always_defined_attrs_in_class S (Suc depth) cl st =
    (if cl \<in> snd st then Inr st
     else if gives_up (fst st cl) then Inr (fst st, insert cl (snd st))
     else
       (case analyze_bases S depth (tl (mro (fst st cl))) (fst st, insert cl (snd st)) of
          Inl e \<Rightarrow> Inl e
        | Inr st1 \<Rightarrow>
           (case analyze_own_init S cl (fst st1) of
              Inl e \<Rightarrow> Inl e
            | Inr classes2 \<Rightarrow> Inr (classes2, snd st1))))"
| "analyze_bases S depth [] st = Inr st"
| "analyze_bases S depth (base # rest) st =
    (case analyze_always_defined_attrs_in_class S depth base st of
       Inl e \<Rightarrow> Inl e
     | Inr st1 \<Rightarrow> analyze_bases S depth rest st1)"

text \<open>
  \<^verbatim>\<open>update_always_defined_attrs_using_subclasses\<close>.  The outer loop runs over the
  set \<^verbatim>\<open>cl._always_initialized_attrs\<close>; Python fixes no order for that, so the order
  is the parameter \<open>iter\<close>, which lists the elements of a set.  The inner loop runs
  over \<^verbatim>\<open>cl.children\<close> and carries \<^verbatim>\<open>removed\<close>.
\<close>

fun update_always_defined_attrs_using_subclasses ::
    "(string set \<Rightarrow> string list) \<Rightarrow> nat \<Rightarrow> ClassId \<Rightarrow> PassState \<Rightarrow> failure + PassState"
  and update_attrs ::
    "(string set \<Rightarrow> string list) \<Rightarrow> nat \<Rightarrow> ClassId \<Rightarrow> string list \<Rightarrow> PassState \<times> string set \<Rightarrow>
     failure + (PassState \<times> string set)"
  and update_children ::
    "(string set \<Rightarrow> string list) \<Rightarrow> nat \<Rightarrow> string \<Rightarrow> ClassId list \<Rightarrow> PassState \<times> string set \<Rightarrow>
     failure + (PassState \<times> string set)" where
  "update_always_defined_attrs_using_subclasses iter 0 cl st = Inl RecursionError"
| "update_always_defined_attrs_using_subclasses iter (Suc depth) cl st =
    (if cl \<in> snd st then Inr st
     else if children (fst st cl) = None then Inr st
     else
       (case update_attrs iter depth cl (iter (always_initialized_attrs (fst st cl))) (st, {}) of
          Inl e \<Rightarrow> Inl e
        | Inr (st1, removed) \<Rightarrow>
            Inr ((fst st1)(cl := (fst st1 cl)\<lparr>
                   always_initialized_attrs := always_initialized_attrs (fst st1 cl) - removed\<rparr>),
                 insert cl (snd st1))))"
| "update_attrs iter depth cl [] acc = Inr acc"
| "update_attrs iter depth cl (attr # rest) acc =
    (case children (fst (fst acc) cl) of
       None \<Rightarrow> Inl TypeError
     | Some cs \<Rightarrow>
        (case update_children iter depth attr cs acc of
           Inl e \<Rightarrow> Inl e
         | Inr acc1 \<Rightarrow> update_attrs iter depth cl rest acc1))"
| "update_children iter depth attr [] acc = Inr acc"
| "update_children iter depth attr (child # rest) acc =
    (case update_always_defined_attrs_using_subclasses iter depth child (fst acc) of
       Inl e \<Rightarrow> Inl e
     | Inr st1 \<Rightarrow>
         update_children iter depth attr rest
           (st1, if attr \<notin> always_initialized_attrs (fst st1 child)
                 then insert attr (snd acc) else snd acc))"

text \<open>
  The part of \<^verbatim>\<open>detect_undefined_bitmap\<close> after the loop over the base classes:
  it extends \<^verbatim>\<open>cl.bitmap_attrs\<close>.
\<close>

definition extend_bitmap_from_base :: "ClassId \<Rightarrow> Classes \<Rightarrow> Classes" where
  "extend_bitmap_from_base cl classes =
    (if length (base_mro (classes cl)) > 1
     then classes(cl := (classes cl)\<lparr>bitmap_attrs :=
            bitmap_attrs (classes cl) @ bitmap_attrs (classes (base_mro (classes cl) ! 1))\<rparr>)
     else classes)"

definition append_own_bitmap_attrs :: "ClassId \<Rightarrow> Classes \<Rightarrow> Classes" where
  "append_own_bitmap_attrs cl classes =
     fold (\<lambda>(n, t) cs.
             if error_overlap t \<and> \<not> is_always_defined (cs cl) n
             then cs(cl := (cs cl)\<lparr>bitmap_attrs := bitmap_attrs (cs cl) @ [n]\<rparr>)
             else cs)
          (attributes (classes cl)) classes"

definition append_trait_bitmap_attrs :: "ClassId \<Rightarrow> Classes \<Rightarrow> Classes" where
  "append_trait_bitmap_attrs cl classes =
     fold (\<lambda>base cs.
             if is_trait (cs base) then
               fold (\<lambda>(n, t) cs'.
                       if error_overlap t \<and> \<not> is_always_defined (cs' cl) n
                          \<and> n \<notin> set (bitmap_attrs (cs' cl))
                       then cs'(cl := (cs' cl)\<lparr>bitmap_attrs := bitmap_attrs (cs' cl) @ [n]\<rparr>)
                       else cs')
                    (attributes (cs base)) cs
             else cs)
          (tl (mro (classes cl))) classes"

text \<open>
  \<^verbatim>\<open>detect_undefined_bitmap\<close>.  The loop over \<^verbatim>\<open>cl.base_mro[1:]\<close> calls
  \<^verbatim>\<open>detect_undefined_bitmap(cl, seen)\<close>, with \<^verbatim>\<open>cl\<close> and not the loop
  variable \<^verbatim>\<open>base\<close>, as the source does.
\<close>

fun detect_undefined_bitmap :: "nat \<Rightarrow> ClassId \<Rightarrow> PassState \<Rightarrow> failure + PassState"
  and detect_undefined_bitmap_bases ::
    "nat \<Rightarrow> ClassId \<Rightarrow> ClassId list \<Rightarrow> PassState \<Rightarrow> failure + PassState" where
  "detect_undefined_bitmap 0 cl st = Inl RecursionError"
| "detect_undefined_bitmap (Suc depth) cl st =
    (if is_trait (fst st cl) then Inr st
     else if cl \<in> snd st then Inr st
     else
       (case detect_undefined_bitmap_bases depth cl (tl (base_mro (fst st cl)))
               (fst st, insert cl (snd st)) of
          Inl e \<Rightarrow> Inl e
        | Inr st1 \<Rightarrow>
            Inr (append_trait_bitmap_attrs cl
                   (append_own_bitmap_attrs cl (extend_bitmap_from_base cl (fst st1))),
                 snd st1)))"
| "detect_undefined_bitmap_bases depth cl [] st = Inr st"
| "detect_undefined_bitmap_bases depth cl (base # rest) st =
    (case detect_undefined_bitmap depth cl st of
       Inl e \<Rightarrow> Inl e
     | Inr st1 \<Rightarrow> detect_undefined_bitmap_bases depth cl rest st1)"

text \<open>
  The loops of \<^verbatim>\<open>analyze_always_defined_attrs\<close> over \<^verbatim>\<open>class_irs\<close>, one per
  pass, and the entry point itself.  Every pass starts with an empty \<^verbatim>\<open>seen\<close>.
\<close>

fun first_pass :: "Services \<Rightarrow> nat \<Rightarrow> ClassId list \<Rightarrow> PassState \<Rightarrow> failure + PassState" where
  "first_pass S depth [] st = Inr st"
| "first_pass S depth (cl # rest) st =
    (case analyze_always_defined_attrs_in_class S depth cl st of
       Inl e \<Rightarrow> Inl e
     | Inr st1 \<Rightarrow> first_pass S depth rest st1)"

fun second_pass ::
  "(string set \<Rightarrow> string list) \<Rightarrow> nat \<Rightarrow> ClassId list \<Rightarrow> PassState \<Rightarrow> failure + PassState" where
  "second_pass iter depth [] st = Inr st"
| "second_pass iter depth (cl # rest) st =
    (case update_always_defined_attrs_using_subclasses iter depth cl st of
       Inl e \<Rightarrow> Inl e
     | Inr st1 \<Rightarrow> second_pass iter depth rest st1)"

fun final_pass :: "nat \<Rightarrow> ClassId list \<Rightarrow> PassState \<Rightarrow> failure + PassState" where
  "final_pass depth [] st = Inr st"
| "final_pass depth (cl # rest) st =
    (case detect_undefined_bitmap depth cl st of
       Inl e \<Rightarrow> Inl e
     | Inr st1 \<Rightarrow> final_pass depth rest st1)"

definition analyze_always_defined_attrs ::
  "Services \<Rightarrow> (string set \<Rightarrow> string list) \<Rightarrow> nat \<Rightarrow> ClassId list \<Rightarrow> Classes \<Rightarrow> failure + Classes" where
  "analyze_always_defined_attrs S iter depth class_irs classes =
    (case first_pass S depth class_irs (classes, {}) of
       Inl e \<Rightarrow> Inl e
     | Inr st1 \<Rightarrow>
        (case second_pass iter depth class_irs (fst st1, {}) of
           Inl e \<Rightarrow> Inl e
         | Inr st2 \<Rightarrow>
            (case final_pass depth class_irs (fst st2, {}) of
               Inl e \<Rightarrow> Inl e
             | Inr st3 \<Rightarrow> Inr (fst st3))))"

section \<open>Exit points\<close>

text \<open>
  The program points at which \<^verbatim>\<open>find_always_defined_attributes\<close> and
  \<^verbatim>\<open>find_sometimes_defined_attributes\<close> combine the dataflow results, in the order
  in which the two loops meet them: the first op of a block after which self may have
  leaked, when self had not leaked before it, and the first op of an already leaked
  target of a control op that is reached before the break.
\<close>

fun exit_points_ops :: "unit AnalysisResult \<Rightarrow> Label \<Rightarrow> nat \<Rightarrow> Op list \<Rightarrow> (Label \<times> nat) list" where
  "exit_points_ops dirty b i [] = []"
| "exit_points_ops dirty b i (op # rest) =
    (if truthy (after dirty (b, i)) then
       (if \<not> truthy (before dirty (b, i)) then [(b, i)] else [])
     else
       (if is_ControlOp op
        then map (\<lambda>target. (target, 0))
               (filter (\<lambda>target. truthy (before dirty (target, 0))) (targets op))
        else [])
       @ exit_points_ops dirty b (Suc i) rest)"

definition exit_points :: "BasicBlock list \<Rightarrow> unit AnalysisResult \<Rightarrow> (Label \<times> nat) list" where
  "exit_points blks dirty =
     concat (map (\<lambda>block. exit_points_ops dirty (label block) 0 (ops block)) blks)"

section \<open>The contracts of the consumed services\<close>

text \<open>
  Modelled from the spec: \<^verbatim>\<open>get_cfg\<close> (\<^verbatim>\<open>mypyc/analysis/dataflow.py\<close>, which is
  not among the sources) builds the control-flow graph of the blocks.  A block has an
  edge to every target of its last op.
\<close>

definition block_successors :: "BasicBlock \<Rightarrow> Label list" where
  "block_successors b = (if ops b = [] then [] else targets (last (ops b)))"

text \<open>
  Modelled from the spec: the result of \<^verbatim>\<open>run_analysis\<close>
  (\<^verbatim>\<open>mypyc/analysis/dataflow.py\<close>, which is not among the sources) for a forward
  maybe-analysis.  The spec: "a mapping from (block, op-index) to (set-before, set-after),
  forward-propagated, maybe (union) join at merge points, fixpoint stable", with the
  initial value at the entry block.  Each op turns the set before it into the set after
  it by removing its kill set and adding its gen set.
\<close>

definition join_of_predecessors :: "BasicBlock list \<Rightarrow> 'a AnalysisResult \<Rightarrow> Label \<Rightarrow> 'a set" where
  "join_of_predecessors blks r l =
     (\<Union>p \<in> set blks. if l \<in> set (block_successors p)
                        then after r (label p, length (ops p) - 1) else {})"

fun ops_transfer_ok ::
  "(Op \<Rightarrow> 'a set \<times> 'a set) \<Rightarrow> 'a AnalysisResult \<Rightarrow> Label \<Rightarrow> nat \<Rightarrow> Op list \<Rightarrow> bool" where
  "ops_transfer_ok gen_and_kill r b i [] = True"
| "ops_transfer_ok gen_and_kill r b i (op # rest) =
     (after r (b, i) = (before r (b, i) - snd (gen_and_kill op)) \<union> fst (gen_and_kill op)
      \<and> (rest = [] \<or> before r (b, Suc i) = after r (b, i))
      \<and> ops_transfer_ok gen_and_kill r b (Suc i) rest)"

definition forward_maybe_result ::
  "BasicBlock list \<Rightarrow> (Op \<Rightarrow> 'a set \<times> 'a set) \<Rightarrow> 'a set \<Rightarrow> 'a AnalysisResult \<Rightarrow> bool" where
  "forward_maybe_result blks gen_and_kill initial r \<longleftrightarrow>
     list_all
       (\<lambda>b. (ops b = [] \<or>
               before r (label b, 0) =
                 (if label b = label (hd blks) then initial else {})
                 \<union> join_of_predecessors blks r (label b))
            \<and> ops_transfer_ok gen_and_kill r (label b) 0 (ops b))
       blks"

text \<open>The labels that control can reach from the entry block.\<close>

inductive reachable_label :: "BasicBlock list \<Rightarrow> Label \<Rightarrow> bool" for blks where
  entry: "blks \<noteq> [] \<Longrightarrow> reachable_label blks (label (hd blks))"
| edge: "reachable_label blks (label p) \<Longrightarrow> p \<in> set blks \<Longrightarrow> l \<in> set (block_successors p) \<Longrightarrow>
         reachable_label blks l"

text \<open>
  Modelled from the spec: the result of \<^verbatim>\<open>analyze_self_leaks\<close>
  (\<^verbatim>\<open>mypyc/analysis/selfleaks.py\<close>, which is not among the sources) for a
  constructor without escape-inducing op.  Self has leaked before no op, and after an op
  only when the op is a \<open>Return\<close>: the exits of the constructor are where the results
  are read, and \<^verbatim>\<open>init_self_leak\<close> does not count them.
\<close>

fun escapes_only_at_returns_ops :: "unit AnalysisResult \<Rightarrow> Label \<Rightarrow> nat \<Rightarrow> Op list \<Rightarrow> bool" where
  "escapes_only_at_returns_ops dirty b i [] = True"
| "escapes_only_at_returns_ops dirty b i (op # rest) =
     (\<not> truthy (before dirty (b, i)) \<and> (truthy (after dirty (b, i)) \<longleftrightarrow> op = Return)
      \<and> escapes_only_at_returns_ops dirty b (Suc i) rest)"

definition escapes_only_at_returns :: "BasicBlock list \<Rightarrow> unit AnalysisResult \<Rightarrow> bool" where
  "escapes_only_at_returns blks dirty \<longleftrightarrow>
     list_all (\<lambda>b. escapes_only_at_returns_ops dirty (label b) 0 (ops b)) blks"

section \<open>Example constructors and classes\<close>

text \<open>
  A freshly created class descriptor: no bases, no attributes, a closed and empty set
  of subclasses, and empty results.
\<close>

definition fresh_class :: ClassIR where
  "fresh_class =
     \<lparr>is_trait = False, inherits_python = False, allow_interpreted_subclasses = False,
      builtin_base = None, children = Some [], is_serializable = False,
      mro = [], base_mro = [], attributes = [], attrs_with_defaults = {},
      deletable_attrs = {}, init_method = None,
      always_initialized_attrs = {}, sometimes_initialized_attrs = {},
      init_self_leak = False, bitmap_attrs = []\<rparr>"

definition fresh_classes :: Classes where
  "fresh_classes = (\<lambda>c. fresh_class)"

text \<open>An analysis result that is the same set at every program point.\<close>

definition constant_result :: "'a set \<Rightarrow> 'a AnalysisResult" where
  "constant_result s = \<lparr>before = (\<lambda>p. s), after = (\<lambda>p. s)\<rparr>"

text \<open>
  A constructor that calls a method on self and returns:
  \<^verbatim>\<open>def __init__(self): self.log()\<close>.  Register 0 is \<^verbatim>\<open>self\<close>.
\<close>

definition leaking_init :: FuncIR where
  "leaking_init = \<lparr>arg_regs = [0], blocks = [\<lparr>label = 0, ops = [OtherRegisterOp, Return]\<rparr>]\<rparr>"

definition leaking_classes :: Classes where
  "leaking_classes = fresh_classes(0 := fresh_class\<lparr>mro := [0], base_mro := [0],
      init_method := Some leaking_init\<rparr>)"

text \<open>Services whose self-leak analysis reports a leak after every op.\<close>

definition always_leaking_services :: Services where
  "always_leaking_services =
     \<lparr>run_analysis = (\<lambda>blks gen_and_kill initial. constant_result {}),
      analyze_self_leaks = (\<lambda>classes blks self_reg.
         \<lparr>before = (\<lambda>p. if p = (0, 0) then {} else {()}), after = (\<lambda>p. {()})\<rparr>)\<rparr>"

text \<open>
  Two classes for the bitmap pass: class 0 declares the attribute \<^verbatim>\<open>v\<close> with an
  overlapping error value; class 1 derives from class 0 and declares nothing.
\<close>

definition bitmap_classes :: Classes where
  "bitmap_classes = fresh_classes
     (0 := fresh_class\<lparr>mro := [0], base_mro := [0], children := Some [1],
            attributes := [(''v'', RType True)]\<rparr>,
      1 := fresh_class\<lparr>mro := [1, 0], base_mro := [1, 0]\<rparr>)"

text \<open>
  A class without \<^verbatim>\<open>__init__\<close> whose attribute \<^verbatim>\<open>x\<close> has a default in the
  class body and is listed as deletable.
\<close>

definition deletable_default_classes :: Classes where
  "deletable_default_classes = fresh_classes
     (0 := fresh_class\<lparr>mro := [0], base_mro := [0], attributes := [(''x'', RType False)],
            attrs_with_defaults := {''x''}, deletable_attrs := {''x''}\<rparr>)"

text \<open>One order in which a finite set of names can be iterated: the sorted one.\<close>

definition sorted_iter :: "string set \<Rightarrow> string list" where
  "sorted_iter s = sorted_list_of_set s"

text \<open>
  Services for constructors whose ops have empty gen and kill sets: the dataflow result
  is the initial set everywhere.  In \<open>quiet_services\<close> the self-leak analysis reports
  nothing; in \<open>returning_services\<close> it reports a leak after every op, as it does
  after a \<open>Return\<close>.
\<close>

definition quiet_services :: Services where
  "quiet_services =
     \<lparr>run_analysis = (\<lambda>blks gen_and_kill initial. constant_result initial),
      analyze_self_leaks = (\<lambda>classes blks self_reg. constant_result {})\<rparr>"

definition returning_services :: Services where
  "returning_services =
     \<lparr>run_analysis = (\<lambda>blks gen_and_kill initial. constant_result initial),
      analyze_self_leaks = (\<lambda>classes blks self_reg.
         \<lparr>before = (\<lambda>p. {}), after = (\<lambda>p. {()})\<rparr>)\<rparr>"


text \<open>A trait without a constructor whose attribute \<^verbatim>\<open>x\<close> has a default.\<close>

definition trait_classes :: Classes where
  "trait_classes = fresh_classes
     (0 := fresh_class\<lparr>is_trait := True, mro := [0], base_mro := [0],
            attributes := [(''x'', RType False)], attrs_with_defaults := {''x''}\<rparr>)"

text \<open>
  Class 0 has no constructor and gives \<^verbatim>\<open>x\<close> a default; its subclass 1 makes
  \<^verbatim>\<open>x\<close> deletable and has a constructor that returns at once.
\<close>

definition demoting_classes :: Classes where
  "demoting_classes = fresh_classes
     (0 := fresh_class\<lparr>mro := [0], base_mro := [0], children := Some [1],
            attributes := [(''x'', RType False)], attrs_with_defaults := {''x''}\<rparr>,
      1 := fresh_class\<lparr>mro := [1, 0], base_mro := [1, 0],
            attrs_with_defaults := {''x''}, deletable_attrs := {''x''},
            init_method := Some \<lparr>arg_regs = [0],
               blocks = [\<lparr>label = 0, ops = [Return]\<rparr>]\<rparr>\<rparr>)"

text \<open>A class without a constructor and without subclasses.\<close>

definition default_classes :: Classes where
  "default_classes = fresh_classes
     (0 := fresh_class\<lparr>mro := [0], base_mro := [0],
            attributes := [(''x'', RType False), (''y'', RType False)],
            attrs_with_defaults := {''x''}\<rparr>)"

text \<open>
  Worked example 1:
  \<^verbatim>\<open>self.x = 0; if func(): self.y = 1 else: self.y = 2; self.z = 3\<close>.
  Block 0 writes \<^verbatim>\<open>x\<close>, calls \<^verbatim>\<open>func\<close> and branches; block 1 writes
  \<^verbatim>\<open>y\<close>; block 2 writes \<^verbatim>\<open>y\<close> and \<^verbatim>\<open>z\<close>; block 3 returns.
\<close>

definition branch_blocks :: "BasicBlock list" where
  "branch_blocks =
     [\<lparr>label = 0, ops = [SetAttr 0 ''x'' False, OtherRegisterOp, Branch 1 2]\<rparr>,
      \<lparr>label = 1, ops = [SetAttr 0 ''y'' False, Goto 3]\<rparr>,
      \<lparr>label = 2, ops = [SetAttr 0 ''y'' False, SetAttr 0 ''z'' False, Goto 3]\<rparr>,
      \<lparr>label = 3, ops = [Return]\<rparr>]"

definition branch_classes :: Classes where
  "branch_classes = fresh_classes
     (0 := fresh_class\<lparr>mro := [0], base_mro := [0],
            attributes := [(''x'', RType False), (''y'', RType False), (''z'', RType False)],
            init_method := Some \<lparr>arg_regs = [0], blocks = branch_blocks\<rparr>\<rparr>)"

text \<open>The dataflow results and the self-leak result for worked example 1, as tables.\<close>

definition branch_maybe_defined :: "string AnalysisResult" where
  "branch_maybe_defined =
     \<lparr>before = (\<lambda>p.
         if p = (0, 0) then {}
         else if p \<in> {(0, 1), (0, 2), (1, 0), (2, 0)} then {''x''}
         else if p \<in> {(1, 1), (2, 1)} then {''x'', ''y''}
         else {''x'', ''y'', ''z''}),
       after = (\<lambda>p.
         if p \<in> {(0, 0), (0, 1), (0, 2)} then {''x''}
         else if p \<in> {(1, 0), (1, 1), (2, 0)} then {''x'', ''y''}
         else {''x'', ''y'', ''z''})\<rparr>"

definition branch_maybe_undefined :: "string AnalysisResult" where
  "branch_maybe_undefined =
     \<lparr>before = (\<lambda>p.
         if p = (0, 0) then {''x'', ''y'', ''z''}
         else if p \<in> {(0, 1), (0, 2), (1, 0), (2, 0)} then {''y'', ''z''}
         else if p \<in> {(1, 1), (2, 1), (3, 0)} then {''z''}
         else {}),
       after = (\<lambda>p.
         if p \<in> {(0, 0), (0, 1), (0, 2)} then {''y'', ''z''}
         else if p \<in> {(1, 0), (1, 1), (2, 0), (3, 0)} then {''z''}
         else {})\<rparr>"

definition leak_at_return_3 :: "unit AnalysisResult" where
  "leak_at_return_3 = \<lparr>before = (\<lambda>p. {}), after = (\<lambda>p. if p = (3, 0) then {()} else {})\<rparr>"

definition branch_services :: Services where
  "branch_services =
     \<lparr>run_analysis = (\<lambda>blks gen_and_kill initial.
         if initial = {} then branch_maybe_defined else branch_maybe_undefined),
      analyze_self_leaks = (\<lambda>classes blks self_reg. leak_at_return_3)\<rparr>"

text \<open>
  Worked example 2: \<^verbatim>\<open>self.x = self.compute()\<close>.  The method call is the first op,
  the write the second.
\<close>

definition method_call_blocks :: "BasicBlock list" where
  "method_call_blocks = [\<lparr>label = 0, ops = [OtherRegisterOp, SetAttr 0 ''x'' False, Return]\<rparr>]"

definition method_call_classes :: Classes where
  "method_call_classes = fresh_classes
     (0 := fresh_class\<lparr>mro := [0], base_mro := [0], attributes := [(''x'', RType False)],
            init_method := Some \<lparr>arg_regs = [0], blocks = method_call_blocks\<rparr>\<rparr>)"

definition method_call_services :: Services where
  "method_call_services =
     \<lparr>run_analysis = (\<lambda>blks gen_and_kill initial.
         if initial = {}
         then \<lparr>before = (\<lambda>p. if p \<in> {(0, 0), (0, 1)} then {} else {''x''}),
               after = (\<lambda>p. if p = (0, 0) then {} else {''x''})\<rparr>
         else \<lparr>before = (\<lambda>p. if p \<in> {(0, 0), (0, 1)} then {''x''} else {}),
               after = (\<lambda>p. if p = (0, 0) then {''x''} else {})\<rparr>),
      analyze_self_leaks = (\<lambda>classes blks self_reg.
         \<lparr>before = (\<lambda>p. if p = (0, 0) then {} else {()}), after = (\<lambda>p. {()})\<rparr>)\<rparr>"

text \<open>
  A constructor with unreachable code: block 0 returns; block 1 loops on itself or
  goes on to block 2, which writes \<^verbatim>\<open>a\<close>, an attribute with a default.  The table
  is the least dataflow result of the maybe-defined pass.
\<close>

definition dead_code_blocks :: "BasicBlock list" where
  "dead_code_blocks =
     [\<lparr>label = 0, ops = [Return]\<rparr>,
      \<lparr>label = 1, ops = [Branch 1 2]\<rparr>,
      \<lparr>label = 2, ops = [SetAttr 0 ''a'' False, Return]\<rparr>]"

definition dead_code_maybe_defined :: "string AnalysisResult" where
  "dead_code_maybe_defined =
     \<lparr>before = (\<lambda>p. if p \<in> {(0, 0), (2, 1)} then {''a''} else {}),
       after = (\<lambda>p. if p \<in> {(0, 0), (2, 0), (2, 1)} then {''a''} else {})\<rparr>"

definition dead_code_dirty :: "unit AnalysisResult" where
  "dead_code_dirty =
     \<lparr>before = (\<lambda>p. {}), after = (\<lambda>p. if p \<in> {(0, 0), (2, 1)} then {()} else {})\<rparr>"

text \<open>
  A class whose constructor writes \<^verbatim>\<open>x\<close> and returns,
  \<^verbatim>\<open>def __init__(self): self.x = 0\<close>, and a subclass that defines no constructor
  of its own and declares \<^verbatim>\<open>y\<close>.  The tables are the dataflow results of the
  constructor and the self-leak result.
\<close>

definition write_blocks :: "BasicBlock list" where
  "write_blocks = [\<lparr>label = 0, ops = [SetAttr 0 ''x'' False, Return]\<rparr>]"

definition inheriting_classes :: Classes where
  "inheriting_classes = fresh_classes
     (0 := fresh_class\<lparr>mro := [0], base_mro := [0], children := Some [1],
            attributes := [(''x'', RType False)],
            init_method := Some \<lparr>arg_regs = [0], blocks = write_blocks\<rparr>\<rparr>,
      1 := fresh_class\<lparr>mro := [1, 0], base_mro := [1, 0],
            attributes := [(''y'', RType False)]\<rparr>)"

definition write_services :: Services where
  "write_services =
     \<lparr>run_analysis = (\<lambda>blks gen_and_kill initial.
         if initial = {}
         then \<lparr>before = (\<lambda>p. if p = (0, 0) then {} else {''x''}), after = (\<lambda>p. {''x''})\<rparr>
         else \<lparr>before = (\<lambda>p. if p = (0, 0) then initial else initial - {''x''}),
               after = (\<lambda>p. initial - {''x''})\<rparr>),
      analyze_self_leaks = (\<lambda>classes blks self_reg.
         \<lparr>before = (\<lambda>p. {}), after = (\<lambda>p. if p = (0, 1) then {()} else {})\<rparr>)\<rparr>"

text \<open>A trait with the leaking constructor.\<close>

definition leaking_trait_classes :: Classes where
  "leaking_trait_classes = fresh_classes(0 := fresh_class\<lparr>is_trait := True, mro := [0],
      base_mro := [0], init_method := Some leaking_init\<rparr>)"

text \<open>
  A constructor that returns at once, followed by a block that control never reaches
  and that calls a method on self, with a self-leak analysis that reports a leak after
  every op.
\<close>

definition dead_call_blocks :: "BasicBlock list" where
  "dead_call_blocks =
     [\<lparr>label = 0, ops = [Return]\<rparr>, \<lparr>label = 1, ops = [OtherRegisterOp, Return]\<rparr>]"

definition dead_call_classes :: Classes where
  "dead_call_classes = fresh_classes(0 := fresh_class\<lparr>mro := [0], base_mro := [0],
      init_method := Some \<lparr>arg_regs = [0], blocks = dead_call_blocks\<rparr>\<rparr>)"

section \<open>Notions used to state the properties of the passes\<close>

text \<open>A constructor without its initializer tags.\<close>

fun untagged_op :: "Op \<Rightarrow> Op" where
  "untagged_op (SetAttr obj attr ini) = SetAttr obj attr False"
| "untagged_op op = op"

definition untagged :: "FuncIR \<Rightarrow> FuncIR" where
  "untagged m = m\<lparr>blocks := map (\<lambda>b. b\<lparr>ops := map untagged_op (ops b)\<rparr>) (blocks m)\<rparr>"

text \<open>
  The first pass changes only the two result sets, the self-leak flag and the
  initializer tags inside constructors.
\<close>

definition only_results_changed :: "Classes \<Rightarrow> Classes \<Rightarrow> bool" where
  "only_results_changed old new \<longleftrightarrow>
     (\<forall>c. new c = (old c)\<lparr>
               always_initialized_attrs := always_initialized_attrs (new c),
               sometimes_initialized_attrs := sometimes_initialized_attrs (new c),
               init_self_leak := init_self_leak (new c),
               init_method := init_method (new c)\<rparr>
          \<and> map_option untagged (init_method (new c)) = map_option untagged (init_method (old c)))"

definition same_results :: "ClassIR \<Rightarrow> ClassIR \<Rightarrow> bool" where
  "same_results a b \<longleftrightarrow>
     always_initialized_attrs a = always_initialized_attrs b
     \<and> sometimes_initialized_attrs a = sometimes_initialized_attrs b
     \<and> init_self_leak a = init_self_leak b"

text \<open>
  What the first pass leaves as the results of a class it visits, starting from the
  heap \<open>classes\<close>: the old results when it gives up on the class; otherwise what the
  class's own analysis writes, run on a heap that differs from \<open>classes\<close> in results and
  initializer tags only.
\<close>

definition written_by_first_pass :: "Services \<Rightarrow> Classes \<Rightarrow> ClassId \<Rightarrow> ClassIR \<Rightarrow> bool" where
  "written_by_first_pass S classes c new \<longleftrightarrow>
     (if gives_up (classes c) then same_results new (classes c)
      else \<exists>heap heap'. only_results_changed classes heap
             \<and> analyze_own_init S c heap = Inr heap' \<and> same_results new (heap' c))"

text \<open>
  The second pass only removes names from always-initialized sets; the final pass only
  changes bitmap slot lists.
\<close>

definition only_demoted :: "Classes \<Rightarrow> Classes \<Rightarrow> bool" where
  "only_demoted old new \<longleftrightarrow>
     (\<forall>c. new c = (old c)\<lparr>always_initialized_attrs := always_initialized_attrs (new c)\<rparr>
          \<and> always_initialized_attrs (new c) \<subseteq> always_initialized_attrs (old c))"

definition only_bitmaps_changed :: "Classes \<Rightarrow> Classes \<Rightarrow> bool" where
  "only_bitmaps_changed old new \<longleftrightarrow>
     (\<forall>c. new c = (old c)\<lparr>bitmap_attrs := bitmap_attrs (new c)\<rparr>)"


section \<open>Properties of the resolver's loops\<close>

subsection \<open>The self-leak flag\<close>

lemma any_dirty_ops_iff:
  "any_dirty_ops dirty b i os acc \<longleftrightarrow>
     acc \<or> (\<exists>j < length os. truthy (after dirty (b, i + j)) \<and> os ! j \<noteq> Return)"
proof (induction os arbitrary: i)
  case Nil
  then show ?case by simp
next
  case (Cons op rest)
  have split: "(\<exists>j < Suc (length rest). P j) \<longleftrightarrow> P 0 \<or> (\<exists>j < length rest. P (Suc j))" for P
    by (metis (no_types, lifting) Suc_less_eq less_Suc_eq_0_disj)
  show ?case
    unfolding any_dirty_ops.simps Cons.IH length_Cons split
    by auto
qed

lemma any_dirty_blocks_fold:
  "fold (\<lambda>b any_dirty. any_dirty_ops dirty (label b) 0 (ops b) any_dirty) blks acc \<longleftrightarrow>
     acc \<or> (\<exists>b \<in> set blks. \<exists>j < length (ops b). truthy (after dirty (label b, j)) \<and> ops b ! j \<noteq> Return)"
  by (induction blks arbitrary: acc) (auto simp: any_dirty_ops_iff)

lemma any_dirty_blocks_iff:
  "any_dirty_blocks blks dirty \<longleftrightarrow>
     (\<exists>b \<in> set blks. \<exists>j < length (ops b). truthy (after dirty (label b, j)) \<and> ops b ! j \<noteq> Return)"
  by (simp add: any_dirty_blocks_def any_dirty_blocks_fold)

lemma mark_ops_length:
  "length (mark_attr_initialization_ops_ops self_reg md dirty b i os) = length os"
  by (induction os arbitrary: i) auto

lemma mark_ops_nth_Return:
  "j < length os \<Longrightarrow>
   (mark_attr_initialization_ops_ops self_reg md dirty b i os ! j = Return) \<longleftrightarrow> (os ! j = Return)"
proof (induction os arbitrary: i j)
  case Nil
  then show ?case by simp
next
  case (Cons op rest)
  show ?case
  proof (cases j)
    case 0
    then show ?thesis by (cases op) auto
  next
    case (Suc k)
    with Cons show ?thesis by simp
  qed
qed

lemma any_dirty_blocks_mark:
  "any_dirty_blocks (mark_attr_initialization_ops blks self_reg md d) dirty = any_dirty_blocks blks dirty"
proof -
  let ?m = "\<lambda>block. block\<lparr>ops := mark_attr_initialization_ops_ops self_reg md d (label block) 0 (ops block)\<rparr>"
  have one: "(\<exists>j < length (ops (?m b)). truthy (after dirty (label (?m b), j)) \<and> ops (?m b) ! j \<noteq> Return)
      \<longleftrightarrow> (\<exists>j < length (ops b). truthy (after dirty (label b, j)) \<and> ops b ! j \<noteq> Return)" for b
    by (auto simp: mark_ops_length mark_ops_nth_Return)
  show ?thesis
    unfolding any_dirty_blocks_iff mark_attr_initialization_ops_def set_map bex_simps(7) one ..
qed

subsection \<open>The two result sets in terms of the exit points\<close>












subsection \<open>What the first pass changes\<close>

lemma exit_points_ops_mark:
  "exit_points_ops dirty b i (mark_attr_initialization_ops_ops self_reg md d b' i' os)
     = exit_points_ops dirty b i os"
proof (induction os arbitrary: i i')
  case Nil
  then show ?case by simp
next
  case (Cons op rest)
  have "is_ControlOp (case op of SetAttr obj attr ini \<Rightarrow>
            if obj = self_reg \<and> attr \<notin> before md (b', i') \<and> \<not> truthy (after d (b', i'))
            then SetAttr obj attr True else op | _ \<Rightarrow> op) = is_ControlOp op"
    and "targets (case op of SetAttr obj attr ini \<Rightarrow>
            if obj = self_reg \<and> attr \<notin> before md (b', i') \<and> \<not> truthy (after d (b', i'))
            then SetAttr obj attr True else op | _ \<Rightarrow> op) = targets op"
    by (cases op; simp)+
  then show ?case
    by (simp add: Cons.IH)
qed

lemma exit_points_mark:
  "exit_points (mark_attr_initialization_ops blks self_reg md d) dirty = exit_points blks dirty"
  by (simp add: exit_points_def mark_attr_initialization_ops_def comp_def exit_points_ops_mark)

lemma only_results_changed_refl: "only_results_changed a a"
  by (simp add: only_results_changed_def)

lemma only_results_changedD:
  assumes "only_results_changed a b"
  shows "b c = (a c)\<lparr>
               always_initialized_attrs := always_initialized_attrs (b c),
               sometimes_initialized_attrs := sometimes_initialized_attrs (b c),
               init_self_leak := init_self_leak (b c),
               init_method := init_method (b c)\<rparr>"
    and "map_option untagged (init_method (b c)) = map_option untagged (init_method (a c))"
    and "init_method (b c) = None \<longleftrightarrow> init_method (a c) = None"
proof -
  show "b c = (a c)\<lparr>
               always_initialized_attrs := always_initialized_attrs (b c),
               sometimes_initialized_attrs := sometimes_initialized_attrs (b c),
               init_self_leak := init_self_leak (b c),
               init_method := init_method (b c)\<rparr>"
    and u: "map_option untagged (init_method (b c)) = map_option untagged (init_method (a c))"
    using assms unfolding only_results_changed_def by blast+
  show "init_method (b c) = None \<longleftrightarrow> init_method (a c) = None"
    using u by (metis option.map_disc_iff)
qed

lemma only_results_changed_fields:
  assumes "only_results_changed a b"
  shows "mro (b c) = mro (a c)" and "gives_up (b c) = gives_up (a c)"
    and "attrs_with_defaults (b c) = attrs_with_defaults (a c)"
    and "children (b c) = children (a c)"
    and "deletable_attrs (b c) = deletable_attrs (a c)"
    and "attributes (b c) = attributes (a c)"
proof -
  note e = only_results_changedD(1)[OF assms, of c]
  show "mro (b c) = mro (a c)" by (subst e) simp
  show "attrs_with_defaults (b c) = attrs_with_defaults (a c)" by (subst e) simp
  show "children (b c) = children (a c)" by (subst e) simp
  show "deletable_attrs (b c) = deletable_attrs (a c)" by (subst e) simp
  show "attributes (b c) = attributes (a c)" by (subst e) simp
  have "is_trait (b c) = is_trait (a c)" by (subst e) simp
  moreover have "inherits_python (b c) = inherits_python (a c)" by (subst e) simp
  moreover have "allow_interpreted_subclasses (b c) = allow_interpreted_subclasses (a c)"
    by (subst e) simp
  moreover have "builtin_base (b c) = builtin_base (a c)" by (subst e) simp
  moreover have "is_serializable (b c) = is_serializable (a c)" by (subst e) simp
  moreover have "children (b c) = children (a c)" by (subst e) simp
  ultimately show "gives_up (b c) = gives_up (a c)" by (simp add: gives_up_def)
qed

lemma only_results_changed_trans:
  assumes "only_results_changed a b" and "only_results_changed b c"
  shows "only_results_changed a c"
  unfolding only_results_changed_def
proof (intro allI conjI)
  fix x
  note 1 = only_results_changedD(1)[OF assms(1), of x]
  note 2 = only_results_changedD(1)[OF assms(2), of x]
  show "c x = (a x)\<lparr>
               always_initialized_attrs := always_initialized_attrs (c x),
               sometimes_initialized_attrs := sometimes_initialized_attrs (c x),
               init_self_leak := init_self_leak (c x),
               init_method := init_method (c x)\<rparr>"
    by (subst 2, subst 1) simp
  show "map_option untagged (init_method (c x)) = map_option untagged (init_method (a x))"
    using only_results_changedD(2)[OF assms(1), of x] only_results_changedD(2)[OF assms(2), of x]
    by simp
qed

lemma first_init_Some:
  "first_init classes bases = Some (m, owner) \<Longrightarrow> init_method (classes owner) = Some m"
  by (induction bases) (auto split: option.splits)

lemma first_init_cong:
  assumes "\<And>c. init_method (b c) = None \<longleftrightarrow> init_method (a c) = None"
  shows "first_init b bases = None \<longleftrightarrow> first_init a bases = None"
proof (induction bases)
  case Nil
  then show ?case by simp
next
  case (Cons x xs)
  show ?case
    using Cons assms[of x]
    by (cases "init_method (a x)"; cases "init_method (b x)") auto
qed

lemma get_method_None_iff:
  assumes "only_results_changed a b"
  shows "get_method_and_class_init b c = None \<longleftrightarrow> get_method_and_class_init a c = None"
  unfolding get_method_and_class_init_def only_results_changed_fields(1)[OF assms]
  by (rule first_init_cong) (rule only_results_changedD(3)[OF assms])

lemma same_results_refl: "same_results a a"
  by (simp add: same_results_def)

lemma same_results_trans: "same_results a b \<Longrightarrow> same_results b c \<Longrightarrow> same_results a c"
  by (simp add: same_results_def)

lemma same_results_sym: "same_results a b \<Longrightarrow> same_results b a"
  by (simp add: same_results_def)

lemma only_results_changed_sets:
  "only_results_changed a (a(cl := (a cl)\<lparr>always_initialized_attrs := s1,
      sometimes_initialized_attrs := s2\<rparr>))"
  by (auto simp: only_results_changed_def)

lemma only_results_changed_method:
  "init_method (a owner) = Some m \<Longrightarrow> untagged m' = untagged m \<Longrightarrow>
   only_results_changed a (a(owner := (a owner)\<lparr>init_method := Some m'\<rparr>))"
  by (auto simp: only_results_changed_def)

lemma untagged_mark_ops:
  "map untagged_op (mark_attr_initialization_ops_ops self_reg md d b i os) = map untagged_op os"
proof (induction os arbitrary: i)
  case Nil
  then show ?case by simp
next
  case (Cons op rest)
  have "untagged_op (case op of SetAttr obj attr ini \<Rightarrow>
            if obj = self_reg \<and> attr \<notin> before md (b, i) \<and> \<not> truthy (after d (b, i))
            then SetAttr obj attr True else op | _ \<Rightarrow> op) = untagged_op op"
    by (cases op) simp_all
  then show ?case
    by (simp add: Cons.IH)
qed

lemma untagged_mark:
  "untagged (m\<lparr>blocks := mark_attr_initialization_ops (blocks m) self_reg md d\<rparr>) = untagged m"
  by (simp add: untagged_def mark_attr_initialization_ops_def comp_def untagged_mark_ops)

lemma only_results_changed_flag:
  "only_results_changed a (a(cl := (a cl)\<lparr>init_self_leak := f\<rparr>))"
  by (auto simp: only_results_changed_def)

lemma analyze_own_init_Some:
  fixes S classes cl m owner self_reg
  defines "dirty \<equiv> analyze_self_leaks S classes (blocks m) self_reg"
    and "md \<equiv> analyze_maybe_defined_attrs_in_init S classes (blocks m) self_reg
                 (attrs_with_defaults (classes cl))"
    and "all_attrs \<equiv> (\<Union>base \<in> set (mro (classes cl)). fst ` set (attributes (classes base)))"
  defines "mu \<equiv> analyze_maybe_undefined_attrs_in_init S classes (blocks m) self_reg
                 (all_attrs - attrs_with_defaults (classes cl))"
  defines "c1 \<equiv> classes(cl := (classes cl)\<lparr>
              always_initialized_attrs :=
                {a \<in> find_always_defined_attributes (blocks m) self_reg all_attrs md mu dirty.
                   \<not> is_deletable (classes cl) a},
              sometimes_initialized_attrs :=
                find_sometimes_defined_attributes (blocks m) self_reg md dirty\<rparr>)"
  defines "c2 \<equiv> c1(owner := (c1 owner)\<lparr>init_method :=
              Some (m\<lparr>blocks := mark_attr_initialization_ops (blocks m) self_reg md dirty\<rparr>)\<rparr>)"
  assumes "get_method_and_class_init classes cl = Some (m, owner)"
    and "arg_regs m = self_reg # other_regs"
  shows "analyze_own_init S cl classes =
           Inr (c2(cl := (c2 cl)\<lparr>init_self_leak := any_dirty_blocks (blocks m) dirty\<rparr>))"
  unfolding analyze_own_init_def Let_def c2_def c1_def mu_def all_attrs_def md_def dirty_def
  by (simp only: assms(7,8) option.case prod.case list.case any_dirty_blocks_mark)

lemma analyze_own_init_frame:
  assumes "analyze_own_init S cl classes = Inr classes'"
  shows "only_results_changed classes classes'
         \<and> (\<forall>c. c \<noteq> cl \<longrightarrow> same_results (classes' c) (classes c))"
proof (cases "get_method_and_class_init classes cl")
  case None
  with assms have "classes' = classes(cl := (classes cl)\<lparr>
              always_initialized_attrs := attrs_with_defaults (classes cl),
              sometimes_initialized_attrs := attrs_with_defaults (classes cl)\<rparr>)"
    by (simp add: analyze_own_init_def)
  then show ?thesis
    by (simp add: only_results_changed_sets same_results_refl)
next
  case (Some mo)
  obtain m owner where mo: "mo = (m, owner)" by (cases mo)
  have im: "init_method (classes owner) = Some m"
    using Some mo first_init_Some unfolding get_method_and_class_init_def by blast
  show ?thesis
  proof (cases "arg_regs m")
    case Nil
    with Some mo assms show ?thesis by (simp add: analyze_own_init_def)
  next
    case (Cons self_reg other_regs)
    obtain c1 c2 s1 s2 md d f where
      c1: "c1 = classes(cl := (classes cl)\<lparr>always_initialized_attrs := s1,
                                        sometimes_initialized_attrs := s2\<rparr>)"
      and c2: "c2 = c1(owner := (c1 owner)\<lparr>init_method :=
                 Some (m\<lparr>blocks := mark_attr_initialization_ops (blocks m) self_reg md d\<rparr>)\<rparr>)"
      and e: "analyze_own_init S cl classes = Inr (c2(cl := (c2 cl)\<lparr>init_self_leak := f\<rparr>))"
      using analyze_own_init_Some[OF Some[unfolded mo] Cons, of S] by blast
    have e': "classes' = c2(cl := (c2 cl)\<lparr>init_self_leak := f\<rparr>)"
      using e assms by simp
    have 1: "only_results_changed classes c1"
      unfolding c1 by (rule only_results_changed_sets)
    have "init_method (c1 owner) = Some m"
      using im by (auto simp: c1)
    then have 2: "only_results_changed c1 c2"
      unfolding c2 by (rule only_results_changed_method) (rule untagged_mark)
    have 3: "only_results_changed c2 classes'"
      unfolding e' by (rule only_results_changed_flag)
    have "same_results (classes' c) (classes c)" if "c \<noteq> cl" for c
    proof -
      have "classes' c = c2 c" using that by (simp add: e')
      moreover have "same_results (c2 c) (c1 c)" by (simp add: c2 same_results_def)
      moreover have "c1 c = classes c" using that by (simp add: c1)
      ultimately show ?thesis by simp
    qed
    then show ?thesis
      using only_results_changed_trans[OF only_results_changed_trans[OF 1 2] 3] by blast
  qed
qed

lemma analyze_frame:
  "analyze_always_defined_attrs_in_class S depth cl st = Inr st' \<Longrightarrow>
     snd st \<subseteq> snd st' \<and> cl \<in> snd st' \<and> only_results_changed (fst st) (fst st')
     \<and> (\<forall>c. c \<in> snd st \<or> c \<notin> snd st' \<longrightarrow> same_results (fst st' c) (fst st c))"
  "analyze_bases S depth bases st = Inr st' \<Longrightarrow>
     snd st \<subseteq> snd st' \<and> set bases \<subseteq> snd st' \<and> only_results_changed (fst st) (fst st')
     \<and> (\<forall>c. c \<in> snd st \<or> c \<notin> snd st' \<longrightarrow> same_results (fst st' c) (fst st c))"
proof (induction S depth cl st and S depth bases st arbitrary: st' and st'
       rule: analyze_always_defined_attrs_in_class_analyze_bases.induct)
  case (1 S cl st)
  then show ?case by simp
next
  case (2 S depth cl st)
  show ?case
  proof (cases "cl \<in> snd st")
    case True
    with 2 show ?thesis by (auto simp: only_results_changed_refl same_results_refl)
  next
    case notseen: False
    show ?thesis
    proof (cases "gives_up (fst st cl)")
      case True
      with notseen "2.prems" have "st' = (fst st, insert cl (snd st))" by simp
      then show ?thesis by (auto simp: only_results_changed_refl same_results_refl)
    next
      case False
      from "2.prems" notseen False obtain st1 classes2 where
        b: "analyze_bases S depth (tl (mro (fst st cl))) (fst st, insert cl (snd st)) = Inr st1"
        and o: "analyze_own_init S cl (fst st1) = Inr classes2"
        and r: "st' = (classes2, snd st1)"
        by (auto split: sum.splits)
      have f1: "insert cl (snd st) \<subseteq> snd st1"
        and f2: "\<forall>c. c \<in> insert cl (snd st) \<or> c \<notin> snd st1 \<longrightarrow> same_results (fst st1 c) (fst st c)"
        and f3: "only_results_changed (fst st) (fst st1)"
        using "2.IH"[OF notseen False b] by simp_all
      have "same_results (fst st' c) (fst st c)" if "c \<in> snd st \<or> c \<notin> snd st'" for c
      proof -
        from that notseen f1 r have "c \<noteq> cl" by auto
        then have "same_results (fst st' c) (fst st1 c)"
          using analyze_own_init_frame[OF o] r by simp
        moreover have "same_results (fst st1 c) (fst st c)"
          using that f2 r by auto
        ultimately show ?thesis by (rule same_results_trans)
      qed
      moreover have "only_results_changed (fst st) (fst st')"
        using only_results_changed_trans[OF f3] analyze_own_init_frame[OF o] r by simp
      ultimately show ?thesis
        using f1 r by auto
    qed
  qed
next
  case (3 S depth st)
  then show ?case by (simp add: only_results_changed_refl same_results_refl)
next
  case (4 S depth base rest st)
  from "4.prems" obtain st1 where
    a: "analyze_always_defined_attrs_in_class S depth base st = Inr st1"
    and b: "analyze_bases S depth rest st1 = Inr st'"
    by (auto split: sum.splits)
  note fa = "4.IH"(1)[OF a] and fb = "4.IH"(2)[OF a b]
  have "same_results (fst st' c) (fst st c)" if "c \<in> snd st \<or> c \<notin> snd st'" for c
  proof -
    have "same_results (fst st' c) (fst st1 c)" using that fa fb by auto
    moreover have "same_results (fst st1 c) (fst st c)" using that fa fb by auto
    ultimately show ?thesis by (rule same_results_trans)
  qed
  moreover have "only_results_changed (fst st) (fst st')"
    using only_results_changed_trans fa fb by blast
  ultimately show ?case
    using fa fb by (auto simp: subset_iff)
qed

lemma first_pass_frame:
  "first_pass S depth cls st = Inr st' \<Longrightarrow>
     snd st \<subseteq> snd st' \<and> set cls \<subseteq> snd st' \<and> only_results_changed (fst st) (fst st')
     \<and> (\<forall>c. c \<in> snd st \<or> c \<notin> snd st' \<longrightarrow> same_results (fst st' c) (fst st c))"
proof (induction cls arbitrary: st)
  case Nil
  then show ?case by (simp add: only_results_changed_refl same_results_refl)
next
  case (Cons cl rest)
  from Cons.prems obtain st1 where
    a: "analyze_always_defined_attrs_in_class S depth cl st = Inr st1"
    and b: "first_pass S depth rest st1 = Inr st'"
    by (auto split: sum.splits)
  note fa = analyze_frame(1)[OF a] and fb = Cons.IH[OF b]
  have "same_results (fst st' c) (fst st c)" if "c \<in> snd st \<or> c \<notin> snd st'" for c
  proof -
    have "same_results (fst st' c) (fst st1 c)" using that fa fb by auto
    moreover have "same_results (fst st1 c) (fst st c)" using that fa fb by auto
    ultimately show ?thesis by (rule same_results_trans)
  qed
  moreover have "only_results_changed (fst st) (fst st')"
    using only_results_changed_trans fa fb by blast
  ultimately show ?case
    using fa fb by (auto simp: subset_iff)
qed

subsection \<open>What the first pass writes\<close>

lemma written_same_results:
  "written_by_first_pass S classes c new \<Longrightarrow> same_results new2 new \<Longrightarrow>
   written_by_first_pass S classes c new2"
  unfolding written_by_first_pass_def
  by (cases "gives_up (classes c)") (auto simp: same_results_def)

lemma written_rebase:
  assumes "written_by_first_pass S heap1 c new" and "only_results_changed heap0 heap1"
    and "same_results (heap1 c) (heap0 c)"
  shows "written_by_first_pass S heap0 c new"
proof (cases "gives_up (heap0 c)")
  case True
  then have "gives_up (heap1 c)" using only_results_changed_fields(2)[OF assms(2)] by simp
  with assms(1) have "same_results new (heap1 c)" by (simp add: written_by_first_pass_def)
  then have "same_results new (heap0 c)" using assms(3) by (rule same_results_trans)
  with True show ?thesis by (simp add: written_by_first_pass_def)
next
  case False
  then have "\<not> gives_up (heap1 c)" using only_results_changed_fields(2)[OF assms(2)] by simp
  with assms(1) obtain heap heap' where
    h: "only_results_changed heap1 heap" and o: "analyze_own_init S c heap = Inr heap'"
    and n: "same_results new (heap' c)"
    by (auto simp: written_by_first_pass_def)
  have "only_results_changed heap0 heap"
    using only_results_changed_trans[OF assms(2) h] .
  with False o n show ?thesis by (auto simp: written_by_first_pass_def)
qed

lemma first_pass_written_aux:
  "analyze_always_defined_attrs_in_class S depth cl st = Inr st' \<Longrightarrow>
     \<forall>c \<in> snd st' - snd st. written_by_first_pass S (fst st) c (fst st' c)"
  "analyze_bases S depth bases st = Inr st' \<Longrightarrow>
     \<forall>c \<in> snd st' - snd st. written_by_first_pass S (fst st) c (fst st' c)"
proof (induction S depth cl st and S depth bases st arbitrary: st' and st'
       rule: analyze_always_defined_attrs_in_class_analyze_bases.induct)
  case (1 S cl st)
  then show ?case by simp
next
  case (2 S depth cl st)
  show ?case
  proof (cases "cl \<in> snd st")
    case True
    with 2 show ?thesis by auto
  next
    case notseen: False
    show ?thesis
    proof (cases "gives_up (fst st cl)")
      case True
      with notseen "2.prems" have "st' = (fst st, insert cl (snd st))" by simp
      with True show ?thesis by (auto simp: written_by_first_pass_def same_results_refl)
    next
      case False
      from "2.prems" notseen False obtain st1 classes2 where
        b: "analyze_bases S depth (tl (mro (fst st cl))) (fst st, insert cl (snd st)) = Inr st1"
        and o: "analyze_own_init S cl (fst st1) = Inr classes2"
        and r: "st' = (classes2, snd st1)"
        by (auto split: sum.splits)
      have f3: "only_results_changed (fst st) (fst st1)"
        using analyze_frame(2)[OF b] by simp
      have ih: "\<forall>c \<in> snd st1 - insert cl (snd st). written_by_first_pass S (fst st) c (fst st1 c)"
        using "2.IH"[OF notseen False b] by simp
      show ?thesis
      proof
        fix c assume c: "c \<in> snd st' - snd st"
        show "written_by_first_pass S (fst st) c (fst st' c)"
        proof (cases "c = cl")
          case True
          show ?thesis
            using False f3 o r True unfolding written_by_first_pass_def
            by (auto intro: same_results_refl)
        next
          case ne: False
          then have "same_results (fst st' c) (fst st1 c)"
            using analyze_own_init_frame[OF o] r by simp
          moreover have "written_by_first_pass S (fst st) c (fst st1 c)"
            using c ne r ih by simp
          ultimately show ?thesis using written_same_results by blast
        qed
      qed
    qed
  qed
next
  case (3 S depth st)
  then show ?case by simp
next
  case (4 S depth base rest st)
  from "4.prems" obtain st1 where
    a: "analyze_always_defined_attrs_in_class S depth base st = Inr st1"
    and b: "analyze_bases S depth rest st1 = Inr st'"
    by (auto split: sum.splits)
  note fa = analyze_frame(1)[OF a] and fb = analyze_frame(2)[OF b]
  show ?case
  proof
    fix c assume c: "c \<in> snd st' - snd st"
    show "written_by_first_pass S (fst st) c (fst st' c)"
    proof (cases "c \<in> snd st1")
      case True
      then have "same_results (fst st' c) (fst st1 c)" using fb by simp
      moreover have "written_by_first_pass S (fst st) c (fst st1 c)"
        using "4.IH"(1)[OF a] True c by simp
      ultimately show ?thesis using written_same_results by blast
    next
      case False
      then have s: "same_results (fst st1 c) (fst st c)" using fa by simp
      have "written_by_first_pass S (fst st1) c (fst st' c)"
        using "4.IH"(2)[OF a b] False c by blast
      then show ?thesis
        using written_rebase fa s by blast
    qed
  qed
qed

lemma first_pass_written:
  "first_pass S depth cls st = Inr st' \<Longrightarrow>
     \<forall>c \<in> snd st' - snd st. written_by_first_pass S (fst st) c (fst st' c)"
proof (induction cls arbitrary: st)
  case Nil
  then show ?case by simp
next
  case (Cons cl rest)
  from Cons.prems obtain st1 where
    a: "analyze_always_defined_attrs_in_class S depth cl st = Inr st1"
    and b: "first_pass S depth rest st1 = Inr st'"
    by (auto split: sum.splits)
  note fa = analyze_frame(1)[OF a] and fb = first_pass_frame[OF b]
  show ?case
  proof
    fix c assume c: "c \<in> snd st' - snd st"
    show "written_by_first_pass S (fst st) c (fst st' c)"
    proof (cases "c \<in> snd st1")
      case True
      then have "same_results (fst st' c) (fst st1 c)" using fb by simp
      moreover have "written_by_first_pass S (fst st) c (fst st1 c)"
        using first_pass_written_aux(1)[OF a] True c by simp
      ultimately show ?thesis using written_same_results by blast
    next
      case False
      then have s: "same_results (fst st1 c) (fst st c)" using fa by simp
      have "written_by_first_pass S (fst st1) c (fst st' c)"
        using Cons.IH[OF b] False c by blast
      then show ?thesis
        using written_rebase fa s by blast
    qed
  qed
qed


subsection \<open>What the second and the final pass change\<close>

lemma only_demoted_refl: "only_demoted a a"
  by (simp add: only_demoted_def)

lemma only_demoted_trans: "only_demoted a b \<Longrightarrow> only_demoted b c \<Longrightarrow> only_demoted a c"
  unfolding only_demoted_def
proof (intro allI conjI)
  fix x
  assume ab: "\<forall>c. b c = (a c)\<lparr>always_initialized_attrs := always_initialized_attrs (b c)\<rparr>
                \<and> always_initialized_attrs (b c) \<subseteq> always_initialized_attrs (a c)"
    and bc: "\<forall>ca. c ca = (b ca)\<lparr>always_initialized_attrs := always_initialized_attrs (c ca)\<rparr>
                \<and> always_initialized_attrs (c ca) \<subseteq> always_initialized_attrs (b ca)"
  have 1: "b x = (a x)\<lparr>always_initialized_attrs := always_initialized_attrs (b x)\<rparr>"
    and 2: "c x = (b x)\<lparr>always_initialized_attrs := always_initialized_attrs (c x)\<rparr>"
    using ab bc by blast+
  show "c x = (a x)\<lparr>always_initialized_attrs := always_initialized_attrs (c x)\<rparr>"
    by (subst 2, subst 1) simp
  show "always_initialized_attrs (c x) \<subseteq> always_initialized_attrs (a x)"
    using ab bc by blast
qed

lemma only_demoted_update:
  "only_demoted a (a(cl := (a cl)\<lparr>always_initialized_attrs := always_initialized_attrs (a cl) - removed\<rparr>))"
  by (auto simp: only_demoted_def)

lemma update_only_demoted:
  "update_always_defined_attrs_using_subclasses iter depth cl st = Inr st' \<Longrightarrow>
     only_demoted (fst st) (fst st') \<and> snd st \<subseteq> snd st'"
  "update_attrs iter depth cl attrs acc = Inr acc' \<Longrightarrow>
     only_demoted (fst (fst acc)) (fst (fst acc')) \<and> snd (fst acc) \<subseteq> snd (fst acc')"
  "update_children iter depth attr cs acc = Inr acc' \<Longrightarrow>
     only_demoted (fst (fst acc)) (fst (fst acc')) \<and> snd (fst acc) \<subseteq> snd (fst acc')"
proof (induction iter depth cl st and iter depth cl attrs acc and iter depth attr cs acc
       arbitrary: st' and acc' and acc'
       rule: update_always_defined_attrs_using_subclasses_update_attrs_update_children.induct)
  case (1 iter cl st)
  then show ?case by simp
next
  case (2 iter depth cl st)
  show ?case
  proof (cases "cl \<in> snd st \<or> children (fst st cl) = None")
    case True
    with "2.prems" have "st' = st" by (auto split: if_splits)
    then show ?thesis by (simp add: only_demoted_refl)
  next
    case False
    then have ns: "cl \<notin> snd st" and ch: "children (fst st cl) \<noteq> None" by auto
    from "2.prems" ns ch obtain st1 removed where
      u: "update_attrs iter depth cl (iter (always_initialized_attrs (fst st cl))) (st, {}) = Inr (st1, removed)"
      and r: "st' = ((fst st1)(cl := (fst st1 cl)\<lparr>always_initialized_attrs :=
                  always_initialized_attrs (fst st1 cl) - removed\<rparr>), insert cl (snd st1))"
      by (auto split: sum.splits)
    have ih: "only_demoted (fst st) (fst st1)" "snd st \<subseteq> snd st1"
      using "2.IH"[OF ns ch u] by simp_all
    have "only_demoted (fst st) (fst st')"
      unfolding r fst_conv
      by (rule only_demoted_trans[OF ih(1) only_demoted_update])
    moreover have "snd st \<subseteq> snd st'"
      using ih(2) unfolding r by auto
    ultimately show ?thesis ..
  qed
next
  case (3 iter depth cl acc)
  then show ?case by (simp add: only_demoted_refl)
next
  case (4 iter depth cl attr rest acc)
  from "4.prems" obtain cs acc1 where
    c: "children (fst (fst acc) cl) = Some cs"
    and a: "update_children iter depth attr cs acc = Inr acc1"
    and b: "update_attrs iter depth cl rest acc1 = Inr acc'"
    by (auto split: option.splits sum.splits)
  show ?case
    using "4.IH"(1)[OF c a] "4.IH"(2)[OF c a b] only_demoted_trans by blast
next
  case (5 iter depth attr acc)
  then show ?case by (simp add: only_demoted_refl)
next
  case (6 iter depth attr child rest acc)
  from "6.prems" obtain st1 where
    a: "update_always_defined_attrs_using_subclasses iter depth child (fst acc) = Inr st1"
    and b: "update_children iter depth attr rest
              (st1, if attr \<notin> always_initialized_attrs (fst st1 child)
                    then insert attr (snd acc) else snd acc) = Inr acc'"
    by (auto split: sum.splits)
  show ?case
    using "6.IH"(1)[OF a] "6.IH"(2)[OF a b] only_demoted_trans by fastforce
qed

lemma second_pass_only_demoted:
  "second_pass iter depth cls st = Inr st' \<Longrightarrow> only_demoted (fst st) (fst st')"
proof (induction cls arbitrary: st)
  case Nil
  then show ?case by (simp add: only_demoted_refl)
next
  case (Cons cl rest)
  from Cons.prems obtain st1 where
    a: "update_always_defined_attrs_using_subclasses iter depth cl st = Inr st1"
    and b: "second_pass iter depth rest st1 = Inr st'"
    by (auto split: sum.splits)
  show ?case
    using update_only_demoted(1)[OF a] Cons.IH[OF b] only_demoted_trans by blast
qed

lemma only_bitmaps_changed_refl: "only_bitmaps_changed a a"
  by (simp add: only_bitmaps_changed_def)

lemma only_bitmaps_changed_trans:
  "only_bitmaps_changed a b \<Longrightarrow> only_bitmaps_changed b c \<Longrightarrow> only_bitmaps_changed a c"
  unfolding only_bitmaps_changed_def
proof
  fix x
  assume ab: "\<forall>c. b c = (a c)\<lparr>bitmap_attrs := bitmap_attrs (b c)\<rparr>"
    and bc: "\<forall>ca. c ca = (b ca)\<lparr>bitmap_attrs := bitmap_attrs (c ca)\<rparr>"
  have 1: "b x = (a x)\<lparr>bitmap_attrs := bitmap_attrs (b x)\<rparr>"
    and 2: "c x = (b x)\<lparr>bitmap_attrs := bitmap_attrs (c x)\<rparr>"
    using ab bc by blast+
  show "c x = (a x)\<lparr>bitmap_attrs := bitmap_attrs (c x)\<rparr>"
    by (subst 2, subst 1) simp
qed

lemma only_bitmaps_changed_update:
  "only_bitmaps_changed a (a(cl := (a cl)\<lparr>bitmap_attrs := bs\<rparr>))"
  by (auto simp: only_bitmaps_changed_def)

lemma extend_bitmap_from_base_frame:
  "only_bitmaps_changed classes (extend_bitmap_from_base cl classes)"
  by (simp add: extend_bitmap_from_base_def only_bitmaps_changed_update only_bitmaps_changed_refl)

lemma append_own_fold_frame:
  "only_bitmaps_changed classes
     (fold (\<lambda>(n, t) cs.
             if error_overlap t \<and> \<not> is_always_defined (cs cl) n
             then cs(cl := (cs cl)\<lparr>bitmap_attrs := bitmap_attrs (cs cl) @ [n]\<rparr>)
             else cs) attrs classes)"
proof (induction attrs arbitrary: classes)
  case Nil
  then show ?case by (simp add: only_bitmaps_changed_refl)
next
  case (Cons a attrs)
  obtain n t where a: "a = (n, t)" by (cases a)
  show ?case
    unfolding a fold_Cons comp_def prod.case
    by (rule only_bitmaps_changed_trans[OF _ Cons.IH])
       (simp add: only_bitmaps_changed_update only_bitmaps_changed_refl)
qed

lemma append_trait_inner_frame:
  "only_bitmaps_changed classes
     (fold (\<lambda>(n, t) cs'.
              if error_overlap t \<and> \<not> is_always_defined (cs' cl) n \<and> n \<notin> set (bitmap_attrs (cs' cl))
              then cs'(cl := (cs' cl)\<lparr>bitmap_attrs := bitmap_attrs (cs' cl) @ [n]\<rparr>)
              else cs') attrs classes)"
proof (induction attrs arbitrary: classes)
  case Nil
  then show ?case by (simp add: only_bitmaps_changed_refl)
next
  case (Cons a attrs)
  obtain n t where a: "a = (n, t)" by (cases a)
  show ?case
    unfolding a fold_Cons comp_def prod.case
    by (rule only_bitmaps_changed_trans[OF _ Cons.IH])
       (simp add: only_bitmaps_changed_update only_bitmaps_changed_refl)
qed

lemma append_trait_outer_frame:
  "only_bitmaps_changed classes
     (fold (\<lambda>base cs.
             if is_trait (cs base) then
               fold (\<lambda>(n, t) cs'.
                       if error_overlap t \<and> \<not> is_always_defined (cs' cl) n
                          \<and> n \<notin> set (bitmap_attrs (cs' cl))
                       then cs'(cl := (cs' cl)\<lparr>bitmap_attrs := bitmap_attrs (cs' cl) @ [n]\<rparr>)
                       else cs')
                    (attributes (cs base)) cs
             else cs) bases classes)"
proof (induction bases arbitrary: classes)
  case Nil
  then show ?case by (simp add: only_bitmaps_changed_refl)
next
  case (Cons b bases)
  show ?case
    unfolding fold_Cons comp_def
    by (rule only_bitmaps_changed_trans[OF _ Cons.IH])
       (simp add: append_trait_inner_frame only_bitmaps_changed_refl)
qed

lemma detect_own_frame:
  "only_bitmaps_changed classes
     (append_trait_bitmap_attrs cl (append_own_bitmap_attrs cl (extend_bitmap_from_base cl classes)))"
  unfolding append_trait_bitmap_attrs_def append_own_bitmap_attrs_def
  by (rule only_bitmaps_changed_trans[OF only_bitmaps_changed_trans
        [OF extend_bitmap_from_base_frame append_own_fold_frame] append_trait_outer_frame])

lemma detect_only_bitmaps:
  "detect_undefined_bitmap depth cl st = Inr st' \<Longrightarrow> only_bitmaps_changed (fst st) (fst st')"
  "detect_undefined_bitmap_bases depth cl bases st = Inr st' \<Longrightarrow> only_bitmaps_changed (fst st) (fst st')"
proof (induction depth cl st and depth cl bases st arbitrary: st' and st'
       rule: detect_undefined_bitmap_detect_undefined_bitmap_bases.induct)
  case (1 cl st)
  then show ?case by simp
next
  case (2 depth cl st)
  show ?case
  proof (cases "is_trait (fst st cl) \<or> cl \<in> snd st")
    case True
    with "2.prems" have "st' = st" by (auto split: if_splits)
    then show ?thesis by (simp add: only_bitmaps_changed_refl)
  next
    case False
    then have nt: "\<not> is_trait (fst st cl)" and ns: "cl \<notin> snd st" by auto
    from "2.prems" nt ns obtain st1 where
      b: "detect_undefined_bitmap_bases depth cl (tl (base_mro (fst st cl))) (fst st, insert cl (snd st)) = Inr st1"
      and r: "st' = (append_trait_bitmap_attrs cl
                   (append_own_bitmap_attrs cl (extend_bitmap_from_base cl (fst st1))), snd st1)"
      by (auto split: sum.splits)
    have "only_bitmaps_changed (fst st) (fst st1)"
      using "2.IH"[OF nt ns b] by simp
    then show ?thesis
      unfolding r fst_conv
      by (rule only_bitmaps_changed_trans[OF _ detect_own_frame])
  qed
next
  case (3 depth cl st)
  then show ?case by (simp add: only_bitmaps_changed_refl)
next
  case (4 depth cl base rest st)
  from "4.prems" obtain st1 where
    a: "detect_undefined_bitmap depth cl st = Inr st1"
    and b: "detect_undefined_bitmap_bases depth cl rest st1 = Inr st'"
    by (auto split: sum.splits)
  show ?case
    using "4.IH"(1)[OF a] "4.IH"(2)[OF a b] only_bitmaps_changed_trans by blast
qed

lemma final_pass_only_bitmaps:
  "final_pass depth cls st = Inr st' \<Longrightarrow> only_bitmaps_changed (fst st) (fst st')"
proof (induction cls arbitrary: st)
  case Nil
  then show ?case by (simp add: only_bitmaps_changed_refl)
next
  case (Cons cl rest)
  from Cons.prems obtain st1 where
    a: "detect_undefined_bitmap depth cl st = Inr st1"
    and b: "final_pass depth rest st1 = Inr st'"
    by (auto split: sum.splits)
  show ?case
    using detect_only_bitmaps(1)[OF a] Cons.IH[OF b] only_bitmaps_changed_trans by blast
qed

subsection \<open>Always-initialized within sometimes-initialized\<close>







lemma only_bitmaps_changed_sets:
  assumes "only_bitmaps_changed a b"
  shows "always_initialized_attrs (b c) = always_initialized_attrs (a c)"
    and "sometimes_initialized_attrs (b c) = sometimes_initialized_attrs (a c)"
proof -
  have e: "b c = (a c)\<lparr>bitmap_attrs := bitmap_attrs (b c)\<rparr>"
    using assms unfolding only_bitmaps_changed_def by blast
  show "always_initialized_attrs (b c) = always_initialized_attrs (a c)"
    by (subst e) simp
  show "sometimes_initialized_attrs (b c) = sometimes_initialized_attrs (a c)"
    by (subst e) simp
qed

lemma only_demoted_fields:
  assumes "only_demoted a b"
  shows "sometimes_initialized_attrs (b c) = sometimes_initialized_attrs (a c)"
    and "always_initialized_attrs (b c) \<subseteq> always_initialized_attrs (a c)"
    and "children (b c) = children (a c)"
    and "attrs_with_defaults (b c) = attrs_with_defaults (a c)"
proof -
  have e: "b c = (a c)\<lparr>always_initialized_attrs := always_initialized_attrs (b c)\<rparr>"
    using assms unfolding only_demoted_def by blast
  show "sometimes_initialized_attrs (b c) = sometimes_initialized_attrs (a c)"
    by (subst e) simp
  show "children (b c) = children (a c)"
    by (subst e) simp
  show "attrs_with_defaults (b c) = attrs_with_defaults (a c)"
    by (subst e) simp
  show "always_initialized_attrs (b c) \<subseteq> always_initialized_attrs (a c)"
    using assms unfolding only_demoted_def by blast
qed

lemma analyze_always_defined_attrs_passes:
  assumes "analyze_always_defined_attrs S iter depth cls classes = Inr classes'"
  obtains st1 st2 st3 where
    "first_pass S depth cls (classes, {}) = Inr st1"
    "second_pass iter depth cls (fst st1, {}) = Inr st2"
    "final_pass depth cls (fst st2, {}) = Inr st3"
    "classes' = fst st3"
  using assms unfolding analyze_always_defined_attrs_def
  by (auto split: sum.splits)


subsection \<open>Classes without a constructor\<close>

lemma update_attrs_no_children:
  "children (fst (fst acc) cl) = Some [] \<Longrightarrow> update_attrs iter depth cl attrs acc = Inr acc"
  by (induction attrs) simp_all

lemma update_leaf_unchanged:
  "update_always_defined_attrs_using_subclasses iter depth cl st = Inr st' \<Longrightarrow>
     children (fst st c) = Some [] \<Longrightarrow>
     always_initialized_attrs (fst st' c) = always_initialized_attrs (fst st c)"
  "update_attrs iter depth cl attrs acc = Inr acc' \<Longrightarrow>
     children (fst (fst acc) c) = Some [] \<Longrightarrow>
     always_initialized_attrs (fst (fst acc') c) = always_initialized_attrs (fst (fst acc) c)"
  "update_children iter depth attr cs acc = Inr acc' \<Longrightarrow>
     children (fst (fst acc) c) = Some [] \<Longrightarrow>
     always_initialized_attrs (fst (fst acc') c) = always_initialized_attrs (fst (fst acc) c)"
proof (induction iter depth cl st and iter depth cl attrs acc and iter depth attr cs acc
       arbitrary: st' and acc' and acc'
       rule: update_always_defined_attrs_using_subclasses_update_attrs_update_children.induct)
  case (1 iter cl st)
  then show ?case by simp
next
  case (2 iter depth cl st)
  show ?case
  proof (cases "cl \<in> snd st \<or> children (fst st cl) = None")
    case True
    with "2.prems" have "st' = st" by (auto split: if_splits)
    then show ?thesis by simp
  next
    case False
    then have ns: "cl \<notin> snd st" and ch: "children (fst st cl) \<noteq> None" by auto
    from "2.prems" ns ch obtain st1 removed where
      u: "update_attrs iter depth cl (iter (always_initialized_attrs (fst st cl))) (st, {}) = Inr (st1, removed)"
      and r: "st' = ((fst st1)(cl := (fst st1 cl)\<lparr>always_initialized_attrs :=
                  always_initialized_attrs (fst st1 cl) - removed\<rparr>), insert cl (snd st1))"
      by (auto split: sum.splits)
    have ih: "always_initialized_attrs (fst st1 c) = always_initialized_attrs (fst st c)"
      using "2.IH"[OF ns ch u] "2.prems"(2) by simp
    show ?thesis
    proof (cases "c = cl")
      case False
      then show ?thesis using ih r by simp
    next
      case True
      then have "update_attrs iter depth cl (iter (always_initialized_attrs (fst st cl))) (st, {}) = Inr (st, {})"
        using update_attrs_no_children[of "(st, {})" cl] "2.prems"(2) by simp
      with u have "removed = {}" by simp
      then show ?thesis using ih r True by simp
    qed
  qed
next
  case (3 iter depth cl acc)
  then show ?case by simp
next
  case (4 iter depth cl attr rest acc)
  from "4.prems" obtain cs acc1 where
    c: "children (fst (fst acc) cl) = Some cs"
    and a: "update_children iter depth attr cs acc = Inr acc1"
    and b: "update_attrs iter depth cl rest acc1 = Inr acc'"
    by (auto split: option.splits sum.splits)
  have "children (fst (fst acc1) c) = Some []"
    using only_demoted_fields(3)[of "fst (fst acc)" "fst (fst acc1)" c]
      update_only_demoted(3)[OF a] "4.prems"(2) by simp
  then show ?case
    using "4.IH"(1)[OF c a "4.prems"(2)] "4.IH"(2)[OF c a b] by simp
next
  case (5 iter depth attr acc)
  then show ?case by simp
next
  case (6 iter depth attr child rest acc)
  from "6.prems" obtain st1 where
    a: "update_always_defined_attrs_using_subclasses iter depth child (fst acc) = Inr st1"
    and b: "update_children iter depth attr rest
              (st1, if attr \<notin> always_initialized_attrs (fst st1 child)
                    then insert attr (snd acc) else snd acc) = Inr acc'"
    by (auto split: sum.splits)
  have "children (fst st1 c) = Some []"
    using only_demoted_fields(3)[of "fst (fst acc)" "fst st1" c]
      update_only_demoted(1)[OF a] "6.prems"(2) by simp
  then show ?case
    using "6.IH"(1)[OF a "6.prems"(2)] "6.IH"(2)[OF a b] by simp
qed

lemma second_pass_leaf_unchanged:
  "second_pass iter depth cls st = Inr st' \<Longrightarrow> children (fst st c) = Some [] \<Longrightarrow>
     always_initialized_attrs (fst st' c) = always_initialized_attrs (fst st c)"
proof (induction cls arbitrary: st)
  case Nil
  then show ?case by simp
next
  case (Cons cl rest)
  from Cons.prems obtain st1 where
    a: "update_always_defined_attrs_using_subclasses iter depth cl st = Inr st1"
    and b: "second_pass iter depth rest st1 = Inr st'"
    by (auto split: sum.splits)
  have "children (fst st1 c) = Some []"
    using only_demoted_fields(3)[of "fst st" "fst st1" c]
      update_only_demoted(1)[OF a] Cons.prems(2) by simp
  then show ?case
    using update_leaf_unchanged(1)[OF a Cons.prems(2)] Cons.IH[OF b] by simp
qed

lemma analyze_own_init_no_constructor:
  assumes "analyze_own_init S c heap = Inr heap'" and "get_method_init heap c = None"
  shows "always_initialized_attrs (heap' c) = attrs_with_defaults (heap c)"
    and "sometimes_initialized_attrs (heap' c) = attrs_with_defaults (heap c)"
  using assms by (auto simp: analyze_own_init_def get_method_init_def)

lemma first_pass_no_constructor:
  assumes "first_pass S depth cls (classes, {}) = Inr st1"
    and "c \<in> set cls" and "\<not> gives_up (classes c)" and "get_method_init classes c = None"
  shows "always_initialized_attrs (fst st1 c) = attrs_with_defaults (classes c)"
    and "sometimes_initialized_attrs (fst st1 c) = attrs_with_defaults (classes c)"
    and "children (fst st1 c) = children (classes c)"
proof -
  have "c \<in> snd st1" using first_pass_frame[OF assms(1)] assms(2) by auto
  then have "written_by_first_pass S classes c (fst st1 c)"
    using first_pass_written[OF assms(1)] by simp
  with assms(3) obtain heap heap' where
    h: "only_results_changed classes heap" and o: "analyze_own_init S c heap = Inr heap'"
    and n: "same_results (fst st1 c) (heap' c)"
    by (auto simp: written_by_first_pass_def)
  have g: "get_method_init heap c = None"
    using get_method_None_iff[OF h, of c] assms(4) by (simp add: get_method_init_def)
  show "always_initialized_attrs (fst st1 c) = attrs_with_defaults (classes c)"
    and "sometimes_initialized_attrs (fst st1 c) = attrs_with_defaults (classes c)"
    using analyze_own_init_no_constructor[OF o g] n only_results_changed_fields(3)[OF h, of c]
    by (simp_all add: same_results_def)
  show "children (fst st1 c) = children (classes c)"
    using only_results_changed_fields(4)[of classes "fst st1" c] first_pass_frame[OF assms(1)]
    by simp
qed

subsection \<open>The self-leak flag\<close>

lemma dead_call_reachable:
  "reachable_label dead_call_blocks l \<Longrightarrow> l = 0"
  by (induction rule: reachable_label.induct)
     (auto simp: dead_call_blocks_def block_successors_def)

text \<open>A class on which the analysis gives up keeps its descriptor as it was.\<close>

lemma analyze_gives_up_unchanged:
  assumes "gives_up (classes cl)"
    and "analyze_always_defined_attrs_in_class S depth cl (classes, seen) = Inr st'"
  shows "fst st' = classes"
  using assms by (cases depth) (auto split: if_splits)

section \<open>The claims\<close>

subsection \<open>Gen and kill sets of the maybe-undefined pass\<close>

text \<open>
  C8 (as stated): in the maybe-undefined pass the gen set of an attribute write on the
  receiver is \<open>{name}\<close>.  The visitor returns an empty gen set for \<^verbatim>\<open>self.x = ...\<close>.
\<close>

theorem C8_write_gen_set_counterexample:
  "fst (maybe_undefined_visit fresh_classes 0 (SetAttr 0 ''x'' False)) = {}
   \<and> fst (maybe_undefined_visit fresh_classes 0 (SetAttr 0 ''x'' False)) \<noteq> {''x''}"
  by simp

text \<open>
  C8 (amended): in the maybe-undefined pass an attribute write on the receiver has an
  empty gen set and the kill set \<open>{name}\<close>, so the written name is removed from the
  maybe-undefined set; a call of a method named \<^verbatim>\<open>__init__\<close> with a class name has
  an empty gen set and kills the attributes that the classes in the callee's MRO declare
  and have in their always-initialized sets.
\<close>

theorem C8_maybe_undefined_gen_and_kill:
  "maybe_undefined_visit classes self_reg (SetAttr self_reg attr ini) = ({}, {attr})
   \<and> (truthy_name class_name \<longrightarrow>
        maybe_undefined_visit classes self_reg (Call class_name ''__init__'' cl)
          = ({}, attributes_initialized_by_init_call classes cl))
   \<and> attributes_initialized_by_init_call classes cl =
        {a. \<exists>base \<in> set (mro (classes cl)).
              a \<in> fst ` set (attributes (classes base))
              \<and> a \<in> always_initialized_attrs (classes base)}"
  by (auto simp: attributes_initialized_by_init_call_def is_always_defined_def)

theorem C8_maybe_undefined_gen_and_kill_witness:
  "maybe_undefined_visit fresh_classes 0 (SetAttr 0 ''x'' False) = ({}, {''x''})
   \<and> maybe_undefined_visit fresh_classes 0 (Call (Some ''B'') ''__init__'' 1) = ({}, {})"
  using C8_maybe_undefined_gen_and_kill [of fresh_classes 0 "''x''" False "Some ''B''" 1]
  by (simp add: fresh_classes_def fresh_class_def)

subsection \<open>The bitmap pass\<close>

text \<open>
  C1 (the code at the failing input): when the derived class 1 comes before its base
  class 0 in \<^verbatim>\<open>class_irs\<close>, the bitmap pass gives the base the slot list
  \<open>[v]\<close> and the derived class an empty one, so the derived list does not start
  with the base's list.  With the base first, it does.
\<close>

theorem C1_bitmap_not_extended_when_derived_first:
  "\<exists>classes'.
      final_pass 2 [1, 0] (bitmap_classes, {}) = Inr (classes', {0, 1})
      \<and> bitmap_attrs (classes' 0) = [''v'']
      \<and> bitmap_attrs (classes' 1) = []
      \<and> take (length (bitmap_attrs (classes' 0))) (bitmap_attrs (classes' 1))
           \<noteq> bitmap_attrs (classes' 0)"
  by (simp add: bitmap_classes_def fresh_classes_def fresh_class_def numeral_2_eq_2
      extend_bitmap_from_base_def append_own_bitmap_attrs_def append_trait_bitmap_attrs_def
      is_always_defined_def insert_commute)

lemma bitmap_extended_when_base_first:
  "\<exists>classes'.
      final_pass 2 [0, 1] (bitmap_classes, {}) = Inr (classes', {0, 1})
      \<and> bitmap_attrs (classes' 0) = [''v'']
      \<and> bitmap_attrs (classes' 1) = [''v'']"
  by (simp add: bitmap_classes_def fresh_classes_def fresh_class_def numeral_2_eq_2
      extend_bitmap_from_base_def append_own_bitmap_attrs_def append_trait_bitmap_attrs_def
      is_always_defined_def insert_commute)

subsection \<open>The two result sets of a class\<close>




subsection \<open>The self-leak flag of a class\<close>

text \<open>
  C6 (as stated): \<^verbatim>\<open>init_self_leak\<close> is recorded as true if and only if an escape
  occurs at some reachable point other than directly at a return op.  For a class on
  which the analysis gives up, here a trait, the flag is not written: it stays false
  although self escapes after the first op of the constructor, which is reachable and
  not a return.  And the loop that computes the flag visits every op of every block
  without asking whether control reaches it: an escape reported only in a block that
  control never reaches sets the flag.
\<close>

theorem C6_init_self_leak_counterexample:
  "(\<exists>classes'.
      analyze_always_defined_attrs always_leaking_services sorted_iter 1 [0] leaking_trait_classes
        = Inr classes'
      \<and> get_method_init classes' 0 = Some leaking_init
      \<and> reachable_label (blocks leaking_init) 0
      \<and> truthy (after (analyze_self_leaks always_leaking_services classes' (blocks leaking_init) 0) (0, 0))
      \<and> ops (hd (blocks leaking_init)) ! 0 = OtherRegisterOp
      \<and> \<not> init_self_leak (classes' 0))
   \<and> (\<exists>classes'.
      analyze_always_defined_attrs always_leaking_services sorted_iter 1 [0] dead_call_classes
        = Inr classes'
      \<and> \<not> (\<exists>b i. b \<in> set dead_call_blocks \<and> i < length (ops b)
              \<and> reachable_label dead_call_blocks (label b)
              \<and> truthy (after (analyze_self_leaks always_leaking_services classes' dead_call_blocks 0)
                          (label b, i))
              \<and> ops b ! i \<noteq> Return)
      \<and> init_self_leak (classes' 0))"
proof -
  have a: "\<exists>classes'.
      analyze_always_defined_attrs always_leaking_services sorted_iter 1 [0] leaking_trait_classes
        = Inr classes'
      \<and> get_method_init classes' 0 = Some leaking_init
      \<and> truthy (after (analyze_self_leaks always_leaking_services classes' (blocks leaking_init) 0) (0, 0))
      \<and> ops (hd (blocks leaking_init)) ! 0 = OtherRegisterOp
      \<and> \<not> init_self_leak (classes' 0)"
    by (simp add: analyze_always_defined_attrs_def fresh_classes_def fresh_class_def gives_up_def
      get_method_init_def get_method_and_class_init_def extend_bitmap_from_base_def
      append_own_bitmap_attrs_def append_trait_bitmap_attrs_def is_always_defined_def
      sorted_iter_def truthy_def leaking_trait_classes_def leaking_init_def
      always_leaking_services_def)
  have "blocks leaking_init \<noteq> []" by (simp add: leaking_init_def)
  from reachable_label.entry[OF this]
  have r: "reachable_label (blocks leaking_init) 0" by (simp add: leaking_init_def)
  have b: "\<exists>classes'.
      analyze_always_defined_attrs always_leaking_services sorted_iter 1 [0] dead_call_classes
        = Inr classes'
      \<and> init_self_leak (classes' 0)"
    by (simp add: analyze_always_defined_attrs_def fresh_classes_def fresh_class_def gives_up_def
      analyze_own_init_def get_method_and_class_init_def extend_bitmap_from_base_def
      append_own_bitmap_attrs_def append_trait_bitmap_attrs_def is_always_defined_def
      is_deletable_def sorted_iter_def Let_def constant_result_def truthy_def
      analyze_maybe_defined_attrs_in_init_def analyze_maybe_undefined_attrs_in_init_def
      find_always_defined_attributes_def find_sometimes_defined_attributes_def
      mark_attr_initialization_ops_def any_dirty_blocks_def
      dead_call_classes_def dead_call_blocks_def always_leaking_services_def)
  have n: "\<not> (\<exists>b i. b \<in> set dead_call_blocks \<and> i < length (ops b)
              \<and> reachable_label dead_call_blocks (label b)
              \<and> truthy (after dirty (label b, i))
              \<and> ops b ! i \<noteq> Return)" for dirty
  proof
    assume "\<exists>b i. b \<in> set dead_call_blocks \<and> i < length (ops b)
              \<and> reachable_label dead_call_blocks (label b)
              \<and> truthy (after dirty (label b, i))
              \<and> ops b ! i \<noteq> Return"
    then obtain b i where m: "b \<in> set dead_call_blocks" and i: "i < length (ops b)"
      and l: "reachable_label dead_call_blocks (label b)" and o: "ops b ! i \<noteq> Return"
      by blast
    from dead_call_reachable[OF l] have "label b = 0" .
    with m have "ops b = [Return]" by (auto simp: dead_call_blocks_def)
    with i o show False by simp
  qed
  from a r b n show ?thesis by blast
qed

text \<open>
  C6 (amended): for a class on which the analysis does not give up and for which the
  lookup of \<^verbatim>\<open>__init__\<close> through the MRO finds a constructor, the analysis of the
  class records \<^verbatim>\<open>init_self_leak\<close> as true exactly when the self-leak analysis
  reports a leak after some op, of any block of the constructor whether control reaches
  it or not, that is not a \<open>Return\<close>; leaks reported only at \<open>Return\<close> ops leave it
  false.
\<close>

theorem C6_init_self_leak_iff:
  assumes "cl \<notin> seen" and "\<not> gives_up (classes cl)"
    and "analyze_bases S depth (tl (mro (classes cl))) (classes, insert cl seen) = Inr st1"
    and "get_method_init (fst st1) cl = Some m" and "arg_regs m = self_reg # other_regs"
  shows "\<exists>classes'.
           analyze_always_defined_attrs_in_class S (Suc depth) cl (classes, seen)
             = Inr (classes', snd st1)
           \<and> (init_self_leak (classes' cl) \<longleftrightarrow>
                (\<exists>b \<in> set (blocks m). \<exists>i < length (ops b).
                    truthy (after (analyze_self_leaks S (fst st1) (blocks m) self_reg) (label b, i))
                    \<and> ops b ! i \<noteq> Return))"
proof -
  from assms(4) obtain owner where
    g: "get_method_and_class_init (fst st1) cl = Some (m, owner)"
    by (auto simp: get_method_init_def)
  from analyze_own_init_Some[OF g assms(5), of S]
  obtain c2 where o: "analyze_own_init S cl (fst st1) =
      Inr (c2(cl := (c2 cl)\<lparr>init_self_leak :=
        any_dirty_blocks (blocks m) (analyze_self_leaks S (fst st1) (blocks m) self_reg)\<rparr>))"
    by blast
  show ?thesis
    using assms(1,2,3) o by (simp add: any_dirty_blocks_iff)
qed

theorem C6_init_self_leak_iff_witness:
  "\<exists>classes'.
     analyze_always_defined_attrs_in_class always_leaking_services 1 0 (leaking_classes, {})
       = Inr (classes', {0})
     \<and> init_self_leak (classes' 0)"
proof -
  have a: "0 \<notin> ({} :: nat set)" by simp
  have b: "\<not> gives_up (leaking_classes 0)"
    by (simp add: gives_up_def leaking_classes_def fresh_class_def)
  have c: "analyze_bases always_leaking_services 0 (tl (mro (leaking_classes 0))) (leaking_classes, insert 0 {})
            = Inr (leaking_classes, {0})"
    by (simp add: leaking_classes_def fresh_class_def)
  have d: "get_method_init (fst (leaking_classes, {0::nat})) 0 = Some leaking_init"
    by (simp add: get_method_init_def get_method_and_class_init_def leaking_classes_def
        fresh_class_def)
  have e: "arg_regs leaking_init = 0 # []"
    by (simp add: leaking_init_def)
  show ?thesis
    using C6_init_self_leak_iff [OF a b c d e]
    by (auto simp: leaking_init_def always_leaking_services_def truthy_def)
qed

subsection \<open>The result sets of a class without a constructor\<close>

text \<open>
  C7 (as stated): every class without an \<^verbatim>\<open>__init__\<close> method of its own ends with
  both sets equal to its \<^verbatim>\<open>attrs_with_defaults\<close>.  The analysis gives up on a
  trait and leaves its sets as they were; the subclass pass removes from a class what
  one of its subclasses does not always initialize; and a class that inherits a
  constructor is analysed with that constructor.
\<close>

theorem C7_no_constructor_counterexample:
  "(\<exists>classes'.
      analyze_always_defined_attrs quiet_services sorted_iter 1 [0] trait_classes = Inr classes'
      \<and> init_method (trait_classes 0) = None
      \<and> attrs_with_defaults (trait_classes 0) = {''x''}
      \<and> always_initialized_attrs (classes' 0) = {}
      \<and> sometimes_initialized_attrs (classes' 0) = {})
   \<and> (\<exists>classes'.
      analyze_always_defined_attrs returning_services sorted_iter 2 [0, 1] demoting_classes = Inr classes'
      \<and> init_method (demoting_classes 0) = None
      \<and> attrs_with_defaults (demoting_classes 0) = {''x''}
      \<and> always_initialized_attrs (classes' 0) = {}
      \<and> sometimes_initialized_attrs (classes' 0) = {''x''})
   \<and> (\<exists>classes'.
      analyze_always_defined_attrs write_services sorted_iter 2 [0, 1] inheriting_classes = Inr classes'
      \<and> init_method (inheriting_classes 1) = None
      \<and> attrs_with_defaults (inheriting_classes 1) = {}
      \<and> always_initialized_attrs (classes' 1) = {''x''}
      \<and> sometimes_initialized_attrs (classes' 1) = {''x''})"
  by (simp add: analyze_always_defined_attrs_def fresh_classes_def fresh_class_def gives_up_def
      analyze_own_init_def get_method_and_class_init_def extend_bitmap_from_base_def
      append_own_bitmap_attrs_def append_trait_bitmap_attrs_def is_always_defined_def
      is_deletable_def sorted_iter_def Let_def constant_result_def truthy_def
      analyze_maybe_defined_attrs_in_init_def analyze_maybe_undefined_attrs_in_init_def
      find_always_defined_attributes_def find_sometimes_defined_attributes_def
      mark_attr_initialization_ops_def any_dirty_blocks_def
      trait_classes_def quiet_services_def demoting_classes_def returning_services_def
      inheriting_classes_def write_services_def write_blocks_def
      numeral_2_eq_2 insert_commute)

text \<open>
  C7 (amended): for every class of \<^verbatim>\<open>class_irs\<close> for which the lookup of
  \<^verbatim>\<open>__init__\<close> through the MRO finds no constructor, neither its own nor an
  inherited one, and on which the analysis does not give up: the first pass sets the
  sometimes-initialized set to \<^verbatim>\<open>attrs_with_defaults\<close> and makes the
  always-initialized set agree with \<^verbatim>\<open>attrs_with_defaults\<close> on the attributes
  that are not deletable; after the full analysis the sometimes-initialized set still
  equals \<^verbatim>\<open>attrs_with_defaults\<close>, the always-initialized set is a subset of it,
  and for a class without subclasses it still agrees with \<^verbatim>\<open>attrs_with_defaults\<close>
  on the attributes that are not deletable.
\<close>

theorem C7_no_constructor:
  assumes "analyze_always_defined_attrs S iter depth class_irs classes = Inr classes'"
    and "c \<in> set class_irs" and "\<not> gives_up (classes c)"
    and "get_method_init classes c = None"
  shows "(\<exists>st1. first_pass S depth class_irs (classes, {}) = Inr st1
            \<and> {a \<in> always_initialized_attrs (fst st1 c). \<not> is_deletable (classes c) a}
                = {a \<in> attrs_with_defaults (classes c). \<not> is_deletable (classes c) a}
            \<and> sometimes_initialized_attrs (fst st1 c) = attrs_with_defaults (classes c))
       \<and> sometimes_initialized_attrs (classes' c) = attrs_with_defaults (classes c)
       \<and> always_initialized_attrs (classes' c) \<subseteq> attrs_with_defaults (classes c)
       \<and> (children (classes c) = Some [] \<longrightarrow>
            {a \<in> always_initialized_attrs (classes' c). \<not> is_deletable (classes c) a}
              = {a \<in> attrs_with_defaults (classes c). \<not> is_deletable (classes c) a})"
proof -
  from assms(1) obtain st1 st2 st3 where
    p1: "first_pass S depth class_irs (classes, {}) = Inr st1"
    and p2: "second_pass iter depth class_irs (fst st1, {}) = Inr st2"
    and p3: "final_pass depth class_irs (fst st2, {}) = Inr st3"
    and r: "classes' = fst st3"
    by (rule analyze_always_defined_attrs_passes)
  note f = first_pass_no_constructor[OF p1 assms(2,3,4)]
  note d = only_demoted_fields[OF second_pass_only_demoted[OF p2], of c, simplified]
  note b = only_bitmaps_changed_sets[OF final_pass_only_bitmaps[OF p3], of c, simplified]
  have leaf: "always_initialized_attrs (fst st2 c) = always_initialized_attrs (fst st1 c)"
    if "children (classes c) = Some []"
    using second_pass_leaf_unchanged[OF p2, of c] f(3) that by simp
  show ?thesis
    using p1 f d b leaf r by auto
qed

theorem C7_no_constructor_witness:
  "\<exists>classes'.
      analyze_always_defined_attrs quiet_services sorted_iter 1 [0] default_classes = Inr classes'
      \<and> sometimes_initialized_attrs (classes' 0) = {''x''}
      \<and> always_initialized_attrs (classes' 0) = {''x''}"
proof -
  have run: "\<exists>classes'.
      analyze_always_defined_attrs quiet_services sorted_iter 1 [0] default_classes = Inr classes'"
    by (simp add: analyze_always_defined_attrs_def fresh_classes_def fresh_class_def gives_up_def
      analyze_own_init_def get_method_and_class_init_def extend_bitmap_from_base_def
      append_own_bitmap_attrs_def append_trait_bitmap_attrs_def is_always_defined_def
      sorted_iter_def default_classes_def)
  then obtain classes' where
    r: "analyze_always_defined_attrs quiet_services sorted_iter 1 [0] default_classes = Inr classes'"
    by blast
  have m: "0 \<in> set [0::nat]" by simp
  have g: "\<not> gives_up (default_classes 0)"
    by (simp add: gives_up_def default_classes_def fresh_class_def)
  have n: "get_method_init default_classes 0 = None"
    by (simp add: get_method_init_def get_method_and_class_init_def default_classes_def
        fresh_class_def)
  have k: "children (default_classes 0) = Some []" "attrs_with_defaults (default_classes 0) = {''x''}"
    "\<not> is_deletable (default_classes 0) a" for a
    by (simp_all add: default_classes_def fresh_class_def is_deletable_def)
  show ?thesis
    using C7_no_constructor[OF r m g n] r k by auto
qed

subsection \<open>Deletable attributes\<close>

text \<open>
  C9 (the code at the failing input): for a class without \<^verbatim>\<open>__init__\<close> the
  analysis copies \<^verbatim>\<open>attrs_with_defaults\<close> into the always-initialized set without
  removing the deletable attributes.
\<close>

theorem C9_deletable_default_is_always_initialized:
  "\<exists>classes'.
      analyze_always_defined_attrs always_leaking_services sorted_iter 1 [0] deletable_default_classes
        = Inr classes'
      \<and> ''x'' \<in> deletable_attrs (classes' 0)
      \<and> ''x'' \<in> always_initialized_attrs (classes' 0)"
  by (simp add: analyze_always_defined_attrs_def deletable_default_classes_def fresh_classes_def
      fresh_class_def gives_up_def analyze_own_init_def get_method_and_class_init_def
      extend_bitmap_from_base_def append_own_bitmap_attrs_def append_trait_bitmap_attrs_def
      is_always_defined_def sorted_iter_def)

end
